theory Spec2Isabelle
  imports Complex_Main "HOL-Library.Word" "HOL-Library.Sublist"
begin

section \<open>Pixel buffers and the file store\<close>

text \<open>
  Every function of \<^verbatim>\<open>art_pipeline.py\<close> starts with
  \<^verbatim>\<open>Image.open(path).convert("RGBA")\<close>: it works on a width by height buffer of
  RGBA bytes. A pixel is four unsigned bytes; an image carries its size and its rows
  (row \<open>y\<close>, column \<open>x\<close>), as the array \<^verbatim>\<open>data[y, x, channel]\<close> of the source does.
\<close>

type_synonym u8 = "8 word"

datatype pixel = RGBA (red: u8) (green: u8) (blue: u8) (alpha: u8)

record img =
  width :: nat
  height :: nat
  rows :: "pixel list list"

definition wf_img :: "img \<Rightarrow> bool" where
  "wf_img im =
     (length (rows im) = height im \<and> list_all (\<lambda>r. length r = width im) (rows im))"

text \<open>An image decoded from a file has at least one pixel in each direction.\<close>

definition loadable :: "img \<Rightarrow> bool" where
  "loadable im = (wf_img im \<and> 0 < width im \<and> 0 < height im)"

definition pixel_at :: "img \<Rightarrow> nat \<Rightarrow> nat \<Rightarrow> pixel" where
  "pixel_at im x y = rows im ! y ! x"

text \<open>
  The exceptions the modelled calls raise. The file store maps a path to the image
  saved there. \<^verbatim>\<open>Image.open\<close> raises on a path that holds nothing; the encoder behind
  \<^verbatim>\<open>Image.save\<close> rejects an image with no pixels (Pillow: \<^verbatim>\<open>SystemError: tile cannot
  extend outside image\<close>). Failures of the operating system (permissions, full disk,
  directory creation) are not part of the model: a path is a name, and writing to it
  succeeds.
\<close>

datatype error = FileNotFoundError | ValueError | SystemError | ZeroDivisionError

type_synonym fs = "string \<rightharpoonup> img"

definition image_open :: "fs \<Rightarrow> string \<Rightarrow> error + img" where
  "image_open store path =
     (case store path of None \<Rightarrow> Inl FileNotFoundError | Some im \<Rightarrow> Inr im)"

definition image_save :: "fs \<Rightarrow> string \<Rightarrow> img \<Rightarrow> error + fs" where
  "image_save store path im =
     (if width im = 0 \<or> height im = 0 then Inl SystemError
      else Inr (store(path \<mapsto> im)))"

section \<open>Chroma key\<close>

text \<open>
  \<^verbatim>\<open>magenta_mask = (r > (255 - tolerance)) & (g < tolerance) & (b > (255 - tolerance))\<close>:
  the channels are bytes, \<^verbatim>\<open>tolerance\<close> is a Python integer, and the comparison is the
  one of the integers.
\<close>

definition magenta_mask :: "int \<Rightarrow> pixel \<Rightarrow> bool" where
  "magenta_mask tolerance p =
     (uint (red p) > 255 - tolerance \<and> uint (green p) < tolerance
      \<and> uint (blue p) > 255 - tolerance)"

text \<open>
  The radicand of \<^verbatim>\<open>magenta_distance\<close>: at most \<open>3 * 255\<^sup>2\<close>, so the floating-point sum
  of the source is this integer exactly.
\<close>

definition magenta_dist2 :: "pixel \<Rightarrow> int" where
  "magenta_dist2 p =
     (uint (red p) - 255)\<^sup>2 + (uint (green p))\<^sup>2 + (uint (blue p) - 255)\<^sup>2"

definition magenta_distance :: "pixel \<Rightarrow> real" where
  "magenta_distance p = sqrt (real_of_int (magenta_dist2 p))"

text \<open>
  \<^verbatim>\<open>edge_mask = (magenta_distance < tolerance * 2) & ~magenta_mask\<close>. The square root is
  not negative, so the comparison fails for \<open>tolerance \<le> 0\<close>; otherwise it is the
  comparison of the squares, written here on integers so that it evaluates.
  Lemma \<open>near_magenta_iff\<close> below relates it to the real square root.
\<close>

definition near_magenta :: "int \<Rightarrow> pixel \<Rightarrow> bool" where
  "near_magenta tolerance p = (0 < tolerance \<and> magenta_dist2 p < (tolerance * 2)\<^sup>2)"

definition edge_mask :: "int \<Rightarrow> pixel \<Rightarrow> bool" where
  "edge_mask tolerance p = (near_magenta tolerance p \<and> \<not> magenta_mask tolerance p)"

text \<open>
  \<^verbatim>\<open>np.clip(magenta_distance[edge_mask] / (tolerance * 2) * 255, 0, 255).astype(np.uint8)\<close>:
  the integer part of \<open>255 * d / (2 * tolerance)\<close>, which lies in \<open>[0, 255)\<close> on the edge
  mask. It is the number of \<open>a\<close> in \<open>1..255\<close> with \<open>(2 * tolerance * a)\<^sup>2 \<le> 255\<^sup>2 * d\<^sup>2\<close>.
  The source computes it in double precision; the model takes the exact quotient
  (lemma \<open>edge_alpha_floor\<close>), and no statement below depends on its value where
  the two could differ.
\<close>

definition edge_alpha :: "int \<Rightarrow> pixel \<Rightarrow> u8" where
  "edge_alpha tolerance p =
     of_nat (length (filter
       (\<lambda>a. (tolerance * 2 * int a)\<^sup>2 \<le> 65025 * magenta_dist2 p) [1..<256]))"

text \<open>
  \<^verbatim>\<open>np.clip(data[edge_mask, 1].astype(int) + 30, 0, 255).astype(np.uint8)\<close>
\<close>

definition despill :: "u8 \<Rightarrow> u8" where
  "despill g = of_int (min 255 (max 0 (uint g + 30)))"

text \<open>
  The two masked assignments, on the whole array. The masks are computed from the
  input before any assignment; the second assignment runs when some pixel is on the
  edge mask, reads the green channel after the first assignment and the distance of
  the input.
\<close>

definition clear_core :: "int \<Rightarrow> pixel \<Rightarrow> pixel" where
  "clear_core tolerance p = (if magenta_mask tolerance p then RGBA 0 0 0 0 else p)"

definition soften_edge :: "int \<Rightarrow> pixel \<Rightarrow> pixel \<Rightarrow> pixel" where
  "soften_edge tolerance orig cur =
     (if edge_mask tolerance orig
      then RGBA (red cur) (despill (green cur)) (blue cur) (edge_alpha tolerance orig)
      else cur)"

definition chroma_key_data :: "int \<Rightarrow> pixel list list \<Rightarrow> pixel list list" where
  "chroma_key_data tolerance data =
     (let cleared = map (map (clear_core tolerance)) data
      in if list_ex (list_ex (edge_mask tolerance)) data
         then map2 (map2 (soften_edge tolerance)) data cleared
         else cleared)"

definition chroma_key_magenta :: "fs \<Rightarrow> string \<Rightarrow> string \<Rightarrow> int \<Rightarrow> error + (fs \<times> string)" where
  "chroma_key_magenta store input_path output_path tolerance =
     (case image_open store input_path of
        Inl e \<Rightarrow> Inl e
      | Inr im \<Rightarrow>
          (let result = im\<lparr>rows := chroma_key_data tolerance (rows im)\<rparr>
           in case image_save store output_path result of
                Inl e \<Rightarrow> Inl e
              | Inr store' \<Rightarrow> Inr (store', output_path)))"

text \<open>What the function does to one pixel.\<close>

definition chroma_key_pixel :: "int \<Rightarrow> pixel \<Rightarrow> pixel" where
  "chroma_key_pixel tolerance p =
     (if magenta_mask tolerance p then RGBA 0 0 0 0
      else if near_magenta tolerance p
      then RGBA (red p) (despill (green p)) (blue p) (edge_alpha tolerance p)
      else p)"


section \<open>Trimming\<close>

text \<open>
  \<^verbatim>\<open>img.getbbox()\<close> on an RGBA image: the bounding box \<open>(left, upper, right, lower)\<close>
  of the pixels whose alpha is not zero, right and lower exclusive, or \<^verbatim>\<open>None\<close> when
  there is no such pixel.
\<close>

definition opaque_px :: "pixel \<Rightarrow> bool" where
  "opaque_px p = (alpha p \<noteq> 0)"

definition content_columns :: "img \<Rightarrow> nat list" where
  "content_columns im =
     filter (\<lambda>x. list_ex (\<lambda>r. opaque_px (r ! x)) (rows im)) [0..<width im]"

definition content_rows :: "img \<Rightarrow> nat list" where
  "content_rows im = filter (\<lambda>y. list_ex opaque_px (rows im ! y)) [0..<height im]"

definition getbbox :: "img \<Rightarrow> (int \<times> int \<times> int \<times> int) option" where
  "getbbox im =
     (if content_columns im = [] \<or> content_rows im = [] then None
      else Some (int (hd (content_columns im)), int (hd (content_rows im)),
                 int (last (content_columns im)) + 1, int (last (content_rows im)) + 1))"

text \<open>
  \<^verbatim>\<open>img.crop(box)\<close>: a box whose right is left of its left (or lower above upper) is a
  \<^verbatim>\<open>ValueError\<close>; otherwise the result is \<open>right - left\<close> wide and \<open>lower - upper\<close>
  tall, and holds the pixels of the box, transparent black where the box leaves the
  image.
\<close>

definition pixel_or_blank :: "img \<Rightarrow> int \<Rightarrow> int \<Rightarrow> pixel" where
  "pixel_or_blank im x y =
     (if 0 \<le> x \<and> x < int (width im) \<and> 0 \<le> y \<and> y < int (height im)
      then pixel_at im (nat x) (nat y) else RGBA 0 0 0 0)"

definition crop :: "img \<Rightarrow> int \<times> int \<times> int \<times> int \<Rightarrow> error + img" where
  "crop im box =
     (case box of (left, upper, right, lower) \<Rightarrow>
        if right < left \<or> lower < upper then Inl ValueError
        else Inr \<lparr>width = nat (right - left), height = nat (lower - upper),
                  rows = map (\<lambda>y. map (\<lambda>x. pixel_or_blank im (left + int x) (upper + int y))
                                      [0..<nat (right - left)])
                             [0..<nat (lower - upper)]\<rparr>)"

definition save_to :: "fs \<Rightarrow> string \<Rightarrow> img \<Rightarrow> error + (fs \<times> string)" where
  "save_to store output_path im =
     (case image_save store output_path im of
        Inl e \<Rightarrow> Inl e
      | Inr store' \<Rightarrow> Inr (store', output_path))"

definition trim_to_content :: "fs \<Rightarrow> string \<Rightarrow> string \<Rightarrow> int \<Rightarrow> error + (fs \<times> string)" where
  "trim_to_content store input_path output_path padding =
     (case image_open store input_path of
        Inl e \<Rightarrow> Inl e
      | Inr im \<Rightarrow>
          (case getbbox im of
             None \<Rightarrow> save_to store output_path im
           | Some (b0, b1, b2, b3) \<Rightarrow>
               (let padded = (max 0 (b0 - padding), max 0 (b1 - padding),
                              min (int (width im)) (b2 + padding),
                              min (int (height im)) (b3 + padding))
                in case crop im padded of
                     Inl e \<Rightarrow> Inl e
                   | Inr trimmed \<Rightarrow> save_to store output_path trimmed)))"

section \<open>Resizing\<close>

text \<open>
  \<^verbatim>\<open>img.resize((w, h), Image.NEAREST)\<close>: a size below 1 is a \<^verbatim>\<open>ValueError\<close>. Output
  column \<open>x\<close> takes the source column that holds the centre of the output pixel scaled
  back, \<open>(x + 1/2) * W / w\<close>, rounded down; rows alike. The library steps through these
  centres in double precision; the model takes the exact quotient, which can differ
  from it only where the centre falls on the border of two source pixels, both then
  equally near.
\<close>

definition nearest_source :: "nat \<Rightarrow> nat \<Rightarrow> nat \<Rightarrow> nat" where
  "nearest_source n_in n_out i = ((2 * i + 1) * n_in) div (2 * n_out)"

definition resize :: "img \<Rightarrow> int \<Rightarrow> int \<Rightarrow> error + img" where
  "resize im w h =
     (if w < 1 \<or> h < 1 then Inl ValueError
      else Inr \<lparr>width = nat w, height = nat h,
                rows = map (\<lambda>y. map (\<lambda>x. pixel_at im (nearest_source (width im) (nat w) x)
                                                    (nearest_source (height im) (nat h) y))
                                    [0..<nat w])
                           [0..<nat h]\<rparr>)"

definition resize_nearest :: "fs \<Rightarrow> string \<Rightarrow> string \<Rightarrow> int \<Rightarrow> int \<Rightarrow> error + (fs \<times> string)" where
  "resize_nearest store input_path output_path w h =
     (case image_open store input_path of
        Inl e \<Rightarrow> Inl e
      | Inr im \<Rightarrow>
          (case resize im w h of
             Inl e \<Rightarrow> Inl e
           | Inr resized \<Rightarrow> save_to store output_path resized))"

text \<open>
  A source index \<open>j\<close> is nearest to output index \<open>i\<close> when the centre of source pixel \<open>j\<close>
  is at most half a source pixel from the scaled centre of output pixel \<open>i\<close>:
  \<open>\<bar>(j + 1/2) - (i + 1/2) * n_in / n_out\<bar> \<le> 1/2\<close>, cleared of fractions.
\<close>

definition is_nearest :: "nat \<Rightarrow> nat \<Rightarrow> nat \<Rightarrow> nat \<Rightarrow> bool" where
  "is_nearest n_in n_out i j =
     (\<bar>(2 * int j + 1) * int n_out - (2 * int i + 1) * int n_in\<bar> \<le> int n_out)"

section \<open>Sprite sheets\<close>

text \<open>
  \<^verbatim>\<open>f"{base_name}_f{i:03d}.png"\<close> and \<^verbatim>\<open>os.path.join\<close> (POSIX): decimal digits, padded
  with zeros to three places; a second component that starts with a slash replaces
  the first.
\<close>

definition digit_char :: "nat \<Rightarrow> char" where
  "digit_char d = char_of (48 + d)"

fun decimal :: "nat \<Rightarrow> string" where
  "decimal n = (if n < 10 then [digit_char n] else decimal (n div 10) @ [digit_char (n mod 10)])"

declare decimal.simps [simp del]

definition zero_pad :: "nat \<Rightarrow> string \<Rightarrow> string" where
  "zero_pad w s = replicate (w - length s) (CHR ''0'') @ s"

definition frame_name :: "string \<Rightarrow> nat \<Rightarrow> string" where
  "frame_name base_name i = base_name @ ''_f'' @ zero_pad 3 (decimal i) @ ''.png''"

definition path_join :: "string \<Rightarrow> string \<Rightarrow> string" where
  "path_join a b =
     (if b \<noteq> [] \<and> hd b = CHR ''/'' then b
      else if a = [] \<or> last a = CHR ''/'' then a @ b
      else a @ ''/'' @ b)"

definition frame_path :: "string \<Rightarrow> string \<Rightarrow> nat \<Rightarrow> string" where
  "frame_path output_dir base_name i = path_join output_dir (frame_name base_name i)"

definition frame_box :: "int \<Rightarrow> int \<Rightarrow> nat \<Rightarrow> int \<times> int \<times> int \<times> int" where
  "frame_box frame_width frame_height i =
     (int i * frame_width, 0, (int i + 1) * frame_width, frame_height)"

text \<open>The loop \<^verbatim>\<open>for i in range(frame_count)\<close>: crop, then save; the first error ends it.\<close>

fun save_frames :: "fs \<Rightarrow> img \<Rightarrow> string \<Rightarrow> string \<Rightarrow> int \<Rightarrow> int \<Rightarrow> nat list \<Rightarrow> error + fs" where
  "save_frames store sheet output_dir base_name frame_width frame_height [] = Inr store"
| "save_frames store sheet output_dir base_name frame_width frame_height (i # rest) =
     (case crop sheet (frame_box frame_width frame_height i) of
        Inl e \<Rightarrow> Inl e
      | Inr frame \<Rightarrow>
          (case image_save store (frame_path output_dir base_name i) frame of
             Inl e \<Rightarrow> Inl e
           | Inr store' \<Rightarrow>
               save_frames store' sheet output_dir base_name frame_width frame_height rest))"

definition slice_sprite_sheet :: "fs \<Rightarrow> string \<Rightarrow> string \<Rightarrow> string \<Rightarrow> int \<Rightarrow> error + (fs \<times> int)" where
  "slice_sprite_sheet store sheet_path output_dir base_name frame_count =
     (case image_open store sheet_path of
        Inl e \<Rightarrow> Inl e
      | Inr sheet \<Rightarrow>
          if frame_count = 0 then Inl ZeroDivisionError
          else
            (let frame_width = int (width sheet) div frame_count;
                 frame_height = int (height sheet)
             in case save_frames store sheet output_dir base_name frame_width frame_height
                       [0..<nat frame_count] of
                  Inl e \<Rightarrow> Inl e
                | Inr store' \<Rightarrow> Inr (store', frame_count)))"

section \<open>Mirroring\<close>

text \<open>\<^verbatim>\<open>img.transpose(Image.FLIP_LEFT_RIGHT)\<close> reverses every row.\<close>

definition flip_left_right :: "img \<Rightarrow> img" where
  "flip_left_right im = im\<lparr>rows := map rev (rows im)\<rparr>"

definition mirror_horizontal :: "fs \<Rightarrow> string \<Rightarrow> string \<Rightarrow> error + (fs \<times> string)" where
  "mirror_horizontal store input_path output_path =
     (case image_open store input_path of
        Inl e \<Rightarrow> Inl e
      | Inr im \<Rightarrow> save_to store output_path (flip_left_right im))"

section \<open>The generation script\<close>

text \<open>
  \<^verbatim>\<open>generate_beans.py\<close> runs from top to bottom once. Its inputs are the lines of the
  \<^verbatim>\<open>.env\<close> file (absent when the file is), the answer of the remote call, and two
  library functions taken as parameters: the base64 decoder (absent result: it raises)
  and \<^verbatim>\<open>json.dumps\<close>. Its effects are the \<^verbatim>\<open>print\<close> calls in order, the files written,
  and how it ends.
\<close>

datatype pyerror = OSError | KeyError | DecodeError

datatype ending = Finished | SysExit int | Traceback pyerror

text \<open>The exit status of the process: an uncaught exception ends Python with status 1.\<close>

fun exit_status :: "ending \<Rightarrow> int" where
  "exit_status Finished = 0"
| "exit_status (SysExit n) = n"
| "exit_status (Traceback e) = 1"

record run =
  stdout :: "string list"
  written :: "(string \<times> string) list"
  ending :: ending

text \<open>
  The response, as far as the script reads it: a part may have an \<^verbatim>\<open>inlineData\<close> key
  (whose object may have a \<^verbatim>\<open>data\<close> key) and a \<^verbatim>\<open>text\<close> key; a candidate may have a
  \<^verbatim>\<open>content\<close> key (whose object may have a \<^verbatim>\<open>parts\<close> key); the result may have a
  \<^verbatim>\<open>candidates\<close> key.
\<close>

record part =
  inline_data :: "string option option"
  text_of :: "string option"

record candidate =
  content_parts :: "part list option option"

record response =
  candidates :: "candidate list option"

datatype http_reply = Reply response | HTTPError int string | RequestFailure string

text \<open>
  \<^verbatim>\<open>line.startswith("GEMINI_API_KEY=")\<close>, then \<^verbatim>\<open>line.strip().split("=", 1)[1]\<close>, for the
  first such line.
\<close>

definition is_space :: "char \<Rightarrow> bool" where
  "is_space c = (of_char c \<in> {9, 10, 11, 12, 13, 28, 29, 30, 31, 32 :: nat})"

definition strip :: "string \<Rightarrow> string" where
  "strip s = rev (dropWhile is_space (rev (dropWhile is_space s)))"

definition after_first_eq :: "string \<Rightarrow> string" where
  "after_first_eq s = drop 1 (dropWhile (\<lambda>c. c \<noteq> CHR ''='') s)"

fun load_api_key :: "string list \<Rightarrow> string option" where
  "load_api_key [] = None"
| "load_api_key (line # rest) =
     (if prefix ''GEMINI_API_KEY='' line then Some (after_first_eq (strip line))
      else load_api_key rest)"

definition show_int :: "int \<Rightarrow> string" where
  "show_int i = (if i < 0 then ''-'' @ decimal (nat (- i)) else decimal (nat i))"

text \<open>\<^verbatim>\<open>f"{n:,}"\<close>: the digits in groups of three.\<close>

fun with_commas :: "nat \<Rightarrow> string" where
  "with_commas n =
     (if n < 1000 then decimal n
      else with_commas (n div 1000) @ '','' @ zero_pad 3 (decimal (n mod 1000)))"

declare with_commas.simps [simp del]

text \<open>
  The two nested loops over candidates and parts. The first part with \<^verbatim>\<open>inlineData\<close>
  ends both loops; a part with \<^verbatim>\<open>text\<close> only is printed. The result is what was
  printed on the way and what was found.
\<close>

datatype found = Image string | NoImage | Raised pyerror

fun scan_parts :: "(string \<Rightarrow> string option) \<Rightarrow> part list \<Rightarrow> string list \<times> found" where
  "scan_parts b64decode [] = ([], NoImage)"
| "scan_parts b64decode (p # ps) =
     (case inline_data p of
        Some None \<Rightarrow> ([], Raised KeyError)
      | Some (Some d) \<Rightarrow>
          (case b64decode d of None \<Rightarrow> ([], Raised DecodeError)
           | Some bytes \<Rightarrow> ([], Image bytes))
      | None \<Rightarrow>
          (case text_of p of
             Some t \<Rightarrow>
               (case scan_parts b64decode ps of
                  (out, r) \<Rightarrow> ((''Text response: '' @ take 200 t) # out, r))
           | None \<Rightarrow> scan_parts b64decode ps))"

fun scan_candidates :: "(string \<Rightarrow> string option) \<Rightarrow> candidate list \<Rightarrow> string list \<times> found" where
  "scan_candidates b64decode [] = ([], NoImage)"
| "scan_candidates b64decode (c # cs) =
     (case content_parts c of
        Some (Some ps) \<Rightarrow>
          (case scan_parts b64decode ps of
             (out, NoImage) \<Rightarrow>
               (case scan_candidates b64decode cs of (out', r) \<Rightarrow> (out @ out', r))
           | (out, r) \<Rightarrow> (out, r))
      | _ \<Rightarrow> scan_candidates b64decode cs)"

definition endpoint :: string where
  "endpoint = ''https://generativelanguage.googleapis.com/v1beta/models/gemini-3-pro-image-preview:generateContent?key=''"

definition sprite_path :: "string \<Rightarrow> string" where
  "sprite_path project_dir =
     path_join (path_join (path_join (path_join (path_join project_dir ''assets'')
       ''characters'') ''beans'') ''_raw'') ''beans-idle-s-v1.png''"

definition calling :: "string list" where
  "calling = [''Calling Gemini API to generate B3ANS canonical sprite...'',
              ''This may take 15-30 seconds...'']"

definition extract_image ::
  "string \<Rightarrow> (string \<Rightarrow> string option) \<Rightarrow> (response \<Rightarrow> string) \<Rightarrow> response \<Rightarrow> run" where
  "extract_image project_dir b64decode dumps result =
     (case (case candidates result of None \<Rightarrow> ([], NoImage)
            | Some cs \<Rightarrow> scan_candidates b64decode cs) of
        (out, Image bytes) \<Rightarrow>
          \<lparr>stdout = calling @ out @
             [''Saved B3ANS sprite to: '' @ sprite_path project_dir,
              ''File size: '' @ with_commas (length bytes) @ '' bytes'',
              [CHR 0x0A] @ ''B3ANS v1 canonical sprite generated successfully!'',
              ''Output: '' @ sprite_path project_dir,
              ''Please review the sprite before proceeding with directional poses.''],
           written = [(sprite_path project_dir, bytes)],
           ending = Finished\<rparr>
      | (out, NoImage) \<Rightarrow>
          \<lparr>stdout = calling @ out @
             [''ERROR: No image was generated. Full response:'', take 2000 (dumps result)],
           written = [],
           ending = SysExit 1\<rparr>
      | (out, Raised e) \<Rightarrow>
          \<lparr>stdout = calling @ out, written = [], ending = Traceback e\<rparr>)"

definition generate_beans ::
  "string \<Rightarrow> string list option \<Rightarrow> (string \<Rightarrow> http_reply) \<Rightarrow> (string \<Rightarrow> string option)
   \<Rightarrow> (response \<Rightarrow> string) \<Rightarrow> run" where
  "generate_beans project_dir env urlopen b64decode dumps =
     (case env of
        None \<Rightarrow> \<lparr>stdout = [], written = [], ending = Traceback OSError\<rparr>
      | Some lines \<Rightarrow>
          (case load_api_key lines of
             None \<Rightarrow>
               \<lparr>stdout = [''ERROR: GEMINI_API_KEY not found in .env''], written = [],
                ending = SysExit 1\<rparr>
           | Some api_key \<Rightarrow>
               if api_key = [] then
                 \<lparr>stdout = [''ERROR: GEMINI_API_KEY not found in .env''], written = [],
                  ending = SysExit 1\<rparr>
               else
                 (case urlopen (endpoint @ api_key) of
                    HTTPError code error_body \<Rightarrow>
                      \<lparr>stdout = calling @
                         [''API Error '' @ show_int code @ '': '' @ error_body],
                       written = [], ending = SysExit 1\<rparr>
                  | RequestFailure e \<Rightarrow>
                      \<lparr>stdout = calling @ [''Request failed: '' @ e],
                       written = [], ending = SysExit 1\<rparr>
                  | Reply result \<Rightarrow> extract_image project_dir b64decode dumps result)))"

text \<open>A response holds image data when some part of some candidate has \<^verbatim>\<open>inlineData\<close>.\<close>

definition has_image_data :: "response \<Rightarrow> bool" where
  "has_image_data result =
     (case candidates result of
        None \<Rightarrow> False
      | Some cs \<Rightarrow>
          list_ex (\<lambda>c. case content_parts c of
                         Some (Some ps) \<Rightarrow> list_ex (\<lambda>p. inline_data p \<noteq> None) ps
                       | _ \<Rightarrow> False) cs)"

section \<open>Sample inputs\<close>

text \<open>
  Small concrete images, on which the theorems below are evaluated. The three pixels
  of \<open>three_pixels\<close> are one of the core magenta mask at tolerance 60, one at the same
  distance from magenta outside the mask, and one far from magenta.
\<close>

definition three_pixels :: img where
  "three_pixels =
     \<lparr>width = 3, height = 1,
      rows = [[RGBA 200 50 200 255, RGBA 190 65 245 255, RGBA 10 200 10 128]]\<rparr>"

definition in_store :: "img \<Rightarrow> fs" where
  "in_store im = [''in.png'' \<mapsto> im]"

text \<open>
  A three by three image whose only visible pixel is the middle one, and a fully
  transparent image whose pixels still carry colour.
\<close>

definition framed_dot :: img where
  "framed_dot =
     \<lparr>width = 3, height = 3,
      rows = [[RGBA 0 0 0 0, RGBA 0 0 0 0, RGBA 0 0 0 0],
              [RGBA 0 0 0 0, RGBA 10 20 30 255, RGBA 0 0 0 0],
              [RGBA 0 0 0 0, RGBA 0 0 0 0, RGBA 0 0 0 0]]\<rparr>"

definition clear_pixels :: img where
  "clear_pixels = \<lparr>width = 2, height = 1, rows = [[RGBA 255 0 255 0, RGBA 1 2 3 0]]\<rparr>"

text \<open>An environment file with a key, and a response that holds text only.\<close>

definition key_env :: "string list" where
  "key_env = [''# local settings'' @ [CHR 0x0A], ''GEMINI_API_KEY=abc123'' @ [CHR 0x0A]]"

definition text_only :: response where
  "text_only =
     \<lparr>candidates = Some [\<lparr>content_parts =
        Some (Some [\<lparr>inline_data = None, text_of = Some ''cannot draw that''\<rparr>])\<rparr>]\<rparr>"

section \<open>Reading a number back\<close>

text \<open>
  The value of a string of decimal digits, used to show that different frame numbers
  give different file names.
\<close>

definition digits_value :: "string \<Rightarrow> nat" where
  "digits_value s = foldl (\<lambda>a c. 10 * a + (of_char c - 48)) 0 s"

section \<open>Properties of the chroma key\<close>

lemma soften_clear:
  "soften_edge t p (clear_core t p) = chroma_key_pixel t p"
  by (simp add: soften_edge_def clear_core_def chroma_key_pixel_def edge_mask_def)

lemma no_edge_pixel:
  "\<not> edge_mask t p \<Longrightarrow> clear_core t p = chroma_key_pixel t p"
  by (simp add: clear_core_def chroma_key_pixel_def edge_mask_def)

lemma map2_same:
  "map2 f xs (map g xs) = map (\<lambda>x. f x (g x)) xs"
  by (induction xs) simp_all

lemma chroma_key_data_pointwise:
  "chroma_key_data t data = map (map (chroma_key_pixel t)) data"
proof (cases "list_ex (list_ex (edge_mask t)) data")
  case True
  have "map2 (map2 (soften_edge t)) data (map (map (clear_core t)) data)
        = map (\<lambda>r. map2 (soften_edge t) r (map (clear_core t) r)) data"
    by (rule map2_same)
  also have "\<dots> = map (map (chroma_key_pixel t)) data"
    by (simp add: map2_same soften_clear)
  finally show ?thesis
    using True by (simp add: chroma_key_data_def)
next
  case False
  then have "\<And>r p. r \<in> set data \<Longrightarrow> p \<in> set r \<Longrightarrow> \<not> edge_mask t p"
    by (auto simp: list_ex_iff)
  then have "map (map (clear_core t)) data = map (map (chroma_key_pixel t)) data"
    by (simp add: no_edge_pixel)
  with False show ?thesis
    by (simp add: chroma_key_data_def)
qed

lemma wf_img_row:
  "wf_img im \<Longrightarrow> y < height im \<Longrightarrow> length (rows im ! y) = width im"
  by (simp add: wf_img_def list_all_length)

lemma chroma_key_magenta_result:
  assumes "image_open store input_path = Inr im" and "loadable im"
  shows "chroma_key_magenta store input_path output_path t
         = Inr (store(output_path \<mapsto> im\<lparr>rows := map (map (chroma_key_pixel t)) (rows im)\<rparr>),
                output_path)"
  using assms
  by (simp add: chroma_key_magenta_def image_save_def loadable_def
      chroma_key_data_pointwise)

lemma pixel_at_map:
  assumes "wf_img im" and "x < width im" and "y < height im"
  shows "pixel_at (im\<lparr>rows := map (map f) (rows im)\<rparr>) x y = f (pixel_at im x y)"
  using assms wf_img_row [of im y] by (simp add: pixel_at_def wf_img_def)

lemma near_magenta_iff:
  "near_magenta t p \<longleftrightarrow> magenta_distance p < real_of_int (t * 2)"
proof (cases "0 < t")
  case True
  have "sqrt ((real_of_int (t * 2))\<^sup>2) = \<bar>real_of_int (t * 2)\<bar>"
    by (rule real_sqrt_abs)
  also have "\<dots> = real_of_int (t * 2)"
    using True by simp
  finally have abs: "sqrt ((real_of_int (t * 2))\<^sup>2) = real_of_int (t * 2)" .
  have "magenta_distance p < real_of_int (t * 2)
        \<longleftrightarrow> sqrt (real_of_int (magenta_dist2 p)) < sqrt ((real_of_int (t * 2))\<^sup>2)"
    unfolding abs by (simp only: magenta_distance_def)
  also have "\<dots> \<longleftrightarrow> real_of_int (magenta_dist2 p) < (real_of_int (t * 2))\<^sup>2"
    by (rule real_sqrt_less_iff)
  also have "\<dots> \<longleftrightarrow> magenta_dist2 p < (t * 2)\<^sup>2"
    by (metis of_int_less_iff of_int_power)
  finally show ?thesis
    using True by (simp add: near_magenta_def)
next
  case False
  then have "real_of_int (t * 2) \<le> 0" by simp
  moreover have "0 \<le> magenta_distance p"
    by (simp add: magenta_distance_def magenta_dist2_def)
  ultimately show ?thesis
    using False by (simp add: near_magenta_def)
qed

lemma uint_despill: "uint (despill g) = min 255 (uint g + 30)"
  unfolding despill_def by (simp add: uint_word_of_int take_bit_eq_mod)

lemma despill_nonzero: "despill g \<noteq> 0"
proof
  assume "despill g = 0"
  then have "uint (despill g) = 0" by simp
  then show False
    unfolding uint_despill using uint_ge_0 [of g] by linarith
qed

text \<open>
  The partial alpha of the model is the integer part of the quotient the source
  computes, \<^verbatim>\<open>magenta_distance / (tolerance * 2) * 255\<close>, taken over the reals.
\<close>

lemma count_upto:
  assumes "m < 256"
  shows "length (filter (\<lambda>a. a \<le> m) [1..<256]) = m"
proof -
  have "filter (\<lambda>a. a \<le> m) [1..<256] = [1..<Suc m]"
  proof (rule sorted_distinct_set_unique)
    show "set (filter (\<lambda>a. a \<le> m) [1..<256]) = set [1..<Suc m]"
      using assms by auto
    show "sorted (filter (\<lambda>a. a \<le> m) [1..<256])"
      by (rule sorted_filter [where f = "\<lambda>x. x", simplified]) (rule sorted_upt)
    show "sorted [1..<Suc m]"
      by (rule sorted_upt)
    show "distinct (filter (\<lambda>a. a \<le> m) [1..<256])"
      by (rule distinct_filter) (rule distinct_upt)
    show "distinct [1..<Suc m]"
      by (rule distinct_upt)
  qed
  then show ?thesis by simp
qed

lemma edge_alpha_floor:
  assumes "0 < t" and "magenta_dist2 p < (t * 2)\<^sup>2"
  shows "uint (edge_alpha t p) = \<lfloor>magenta_distance p / real_of_int (t * 2) * 255\<rfloor>"
proof -
  define x where "x = magenta_distance p / real_of_int (t * 2) * 255"
  have d0: "0 \<le> magenta_distance p"
    by (simp add: magenta_distance_def magenta_dist2_def)
  have "near_magenta t p"
    using assms by (simp only: near_magenta_def simp_thms)
  then have dt: "magenta_distance p < real_of_int (t * 2)"
    by (simp only: near_magenta_iff)
  have t2: "0 < real_of_int (t * 2)"
    using assms(1) by simp
  have x0: "0 \<le> x"
    unfolding x_def using d0 t2 by simp
  have "magenta_distance p / real_of_int (t * 2) < 1"
    using dt t2 by simp
  then have x255: "x < 255"
    unfolding x_def by simp
  define k where "k = nat \<lfloor>x\<rfloor>"
  have k: "int k = \<lfloor>x\<rfloor>" "k < 256"
    using x0 x255 unfolding k_def by (simp_all add: floor_less_iff nat_less_iff)
  have d2: "(magenta_distance p)\<^sup>2 = real_of_int (magenta_dist2 p)"
    by (simp add: magenta_distance_def magenta_dist2_def)
  have iff: "(t * 2 * int a)\<^sup>2 \<le> 65025 * magenta_dist2 p \<longleftrightarrow> a \<le> k" for a :: nat
  proof -
    let ?u = "real a * real_of_int (t * 2)" and ?v = "magenta_distance p * 255"
    have uv: "0 \<le> ?u" "0 \<le> ?v"
      using d0 t2 by simp_all
    have "a \<le> k \<longleftrightarrow> int a \<le> \<lfloor>x\<rfloor>"
      using k(1) by linarith
    also have "\<dots> \<longleftrightarrow> real a \<le> x"
      by (simp add: le_floor_iff)
    also have "\<dots> \<longleftrightarrow> ?u \<le> ?v"
      unfolding x_def using t2 by (simp add: field_simps)
    also have "\<dots> \<longleftrightarrow> ?u\<^sup>2 \<le> ?v\<^sup>2"
      using uv abs_le_square_iff [of ?u ?v] by simp
    also have "?u\<^sup>2 = real_of_int ((t * 2 * int a)\<^sup>2)"
      by (simp add: power_mult_distrib mult.commute)
    also have "?v\<^sup>2 = real_of_int (65025 * magenta_dist2 p)"
      by (simp add: power_mult_distrib d2)
    finally show ?thesis
      by (simp only: of_int_le_iff)
  qed
  have "edge_alpha t p = of_nat (length (filter (\<lambda>a. a \<le> k) [1..<256]))"
    unfolding edge_alpha_def by (simp only: iff)
  also have "\<dots> = of_nat k"
    using k(2) by (simp only: count_upto)
  finally have "uint (edge_alpha t p) = uint (of_nat k :: u8)"
    by simp
  also have "\<dots> = int k"
    using k(2) by (simp add: uint_nat unat_of_nat)
  finally show ?thesis
    using k(1) by (simp add: x_def)
qed

lemma loadable_three_pixels: "loadable three_pixels"
  by (simp add: loadable_def wf_img_def three_pixels_def)

lemma open_in_store: "image_open (in_store im) ''in.png'' = Inr im"
  by (simp add: image_open_def in_store_def)

lemma three_pixels_at:
  "pixel_at three_pixels 0 0 = RGBA 200 50 200 255"
  "pixel_at three_pixels (Suc 0) 0 = RGBA 190 65 245 255"
  "pixel_at three_pixels 2 0 = RGBA 10 200 10 128"
  by (simp_all add: pixel_at_def three_pixels_def)

lemma three_pixels_size: "width three_pixels = 3" "height three_pixels = 1"
  by (simp_all add: three_pixels_def)

lemma edge_alpha_sample: "edge_alpha 60 (RGBA 190 65 245 255) = 196"
  unfolding edge_alpha_def by code_simp

lemma three_pixels_near:
  "near_magenta 60 (RGBA 190 65 245 255)" "\<not> near_magenta 60 (RGBA 10 200 10 128)"
  by (simp_all add: near_magenta_def magenta_dist2_def)

text \<open>
  C1. For every image and tolerance, the function writes an image of the same size in
  which every pixel of the core magenta mask (\<open>r > 255 - t\<close>, \<open>g < t\<close>, \<open>b > 255 - t\<close>)
  is \<open>(0, 0, 0, 0)\<close>.
\<close>

theorem chroma_key_magenta_core_transparent:
  assumes "image_open store input_path = Inr im" and "loadable im"
  shows "\<exists>res. chroma_key_magenta store input_path output_path t
                 = Inr (store(output_path \<mapsto> res), output_path)
           \<and> width res = width im \<and> height res = height im
           \<and> (\<forall>x y. x < width im \<and> y < height im
                 \<and> uint (red (pixel_at im x y)) > 255 - t
                 \<and> uint (green (pixel_at im x y)) < t
                 \<and> uint (blue (pixel_at im x y)) > 255 - t
                 \<longrightarrow> pixel_at res x y = RGBA 0 0 0 0)"
proof -
  let ?res = "im\<lparr>rows := map (map (chroma_key_pixel t)) (rows im)\<rparr>"
  have wf: "wf_img im"
    using assms(2) by (simp add: loadable_def)
  have "pixel_at ?res x y = RGBA 0 0 0 0"
    if "x < width im" "y < height im" "magenta_mask t (pixel_at im x y)" for x y
    using that pixel_at_map [OF wf that(1,2)] by (simp add: chroma_key_pixel_def)
  then show ?thesis
    using chroma_key_magenta_result [OF assms, of output_path t]
    by (intro exI [of _ ?res]) (simp add: magenta_mask_def)
qed

theorem chroma_key_magenta_core_transparent_witness:
  "\<exists>res. chroma_key_magenta (in_store three_pixels) ''in.png'' ''out.png'' 60
           = Inr ((in_store three_pixels)(''out.png'' \<mapsto> res), ''out.png'')
         \<and> pixel_at res 0 0 = RGBA 0 0 0 0"
proof -
  obtain res where
    r: "chroma_key_magenta (in_store three_pixels) ''in.png'' ''out.png'' 60
           = Inr ((in_store three_pixels)(''out.png'' \<mapsto> res), ''out.png'')"
    and a: "\<forall>x y. x < width three_pixels \<and> y < height three_pixels
                 \<and> uint (red (pixel_at three_pixels x y)) > 255 - 60
                 \<and> uint (green (pixel_at three_pixels x y)) < 60
                 \<and> uint (blue (pixel_at three_pixels x y)) > 255 - 60
                 \<longrightarrow> pixel_at res x y = RGBA 0 0 0 0"
    using chroma_key_magenta_core_transparent
      [OF open_in_store loadable_three_pixels, of "''out.png''" 60]
    by blast
  have "pixel_at res 0 0 = RGBA 0 0 0 0"
    using a [rule_format, of 0 0] by (simp add: three_pixels_at three_pixels_size)
  with r show ?thesis by blast
qed

text \<open>
  C2, as the code has it. The pixels made \<open>(0, 0, 0, 0)\<close> are chosen by the per-channel
  test of the core mask, not by a distance. The Euclidean distance to magenta, compared
  with twice the tolerance, chooses among the other pixels those whose alpha and green
  are rewritten (to the partial alpha and the green raised by 30, never to
  \<open>(0, 0, 0, 0)\<close>); every remaining pixel is unchanged.
\<close>

theorem chroma_key_magenta_selection:
  assumes "image_open store input_path = Inr im" and "loadable im"
  shows "\<exists>res. chroma_key_magenta store input_path output_path t
                 = Inr (store(output_path \<mapsto> res), output_path)
           \<and> (\<forall>x y. x < width im \<and> y < height im \<longrightarrow>
                 (magenta_mask t (pixel_at im x y) \<longrightarrow> pixel_at res x y = RGBA 0 0 0 0)
               \<and> (\<not> magenta_mask t (pixel_at im x y)
                    \<and> magenta_distance (pixel_at im x y) < real_of_int (t * 2) \<longrightarrow>
                    pixel_at res x y
                      = RGBA (red (pixel_at im x y)) (despill (green (pixel_at im x y)))
                          (blue (pixel_at im x y)) (edge_alpha t (pixel_at im x y))
                    \<and> pixel_at res x y \<noteq> RGBA 0 0 0 0)
               \<and> (\<not> magenta_mask t (pixel_at im x y)
                    \<and> \<not> magenta_distance (pixel_at im x y) < real_of_int (t * 2) \<longrightarrow>
                    pixel_at res x y = pixel_at im x y))"
proof -
  let ?res = "im\<lparr>rows := map (map (chroma_key_pixel t)) (rows im)\<rparr>"
  have wf: "wf_img im"
    using assms(2) by (simp add: loadable_def)
  have px: "pixel_at ?res x y = chroma_key_pixel t (pixel_at im x y)"
    if "x < width im" "y < height im" for x y
    using pixel_at_map [OF wf that] .
  have res: "chroma_key_magenta store input_path output_path t
          = Inr (store(output_path \<mapsto> ?res), output_path)"
    using chroma_key_magenta_result [OF assms, of output_path t] .
  have core: "chroma_key_pixel t p = RGBA 0 0 0 0" if "magenta_mask t p" for p
    using that by (simp add: chroma_key_pixel_def)
  have edge: "chroma_key_pixel t p
                   = RGBA (red p) (despill (green p)) (blue p) (edge_alpha t p)
                 \<and> chroma_key_pixel t p \<noteq> RGBA 0 0 0 0"
    if "\<not> magenta_mask t p" "magenta_distance p < real_of_int (t * 2)" for p
    using that despill_nonzero [of "green p"]
    by (simp add: chroma_key_pixel_def near_magenta_iff)
  have far: "chroma_key_pixel t p = p"
    if "\<not> magenta_mask t p" "\<not> magenta_distance p < real_of_int (t * 2)" for p
    using that by (simp add: chroma_key_pixel_def near_magenta_iff)
  show ?thesis
  proof (intro exI [of _ ?res] conjI allI impI)
    show "chroma_key_magenta store input_path output_path t
            = Inr (store(output_path \<mapsto> ?res), output_path)"
      by (rule res)
  next
    fix x y
    assume "x < width im \<and> y < height im" "magenta_mask t (pixel_at im x y)"
    then show "pixel_at ?res x y = RGBA 0 0 0 0"
      using core px by simp
  next
    fix x y
    assume b: "x < width im \<and> y < height im"
      and e: "\<not> magenta_mask t (pixel_at im x y)
              \<and> magenta_distance (pixel_at im x y) < real_of_int (t * 2)"
    have eq: "pixel_at ?res x y = chroma_key_pixel t (pixel_at im x y)"
      using b px by simp
    show "pixel_at ?res x y
            = RGBA (red (pixel_at im x y)) (despill (green (pixel_at im x y)))
                (blue (pixel_at im x y)) (edge_alpha t (pixel_at im x y))"
      unfolding eq using edge [of "pixel_at im x y"] e by blast
    show "pixel_at ?res x y \<noteq> RGBA 0 0 0 0"
      unfolding eq using edge [of "pixel_at im x y"] e by blast
  next
    fix x y
    assume b: "x < width im \<and> y < height im"
      and e: "\<not> magenta_mask t (pixel_at im x y)
              \<and> \<not> magenta_distance (pixel_at im x y) < real_of_int (t * 2)"
    have eq: "pixel_at ?res x y = chroma_key_pixel t (pixel_at im x y)"
      using b px by simp
    show "pixel_at ?res x y = pixel_at im x y"
      unfolding eq using far [of "pixel_at im x y"] e by blast
  qed
qed

theorem chroma_key_magenta_selection_witness:
  "\<exists>res. chroma_key_magenta (in_store three_pixels) ''in.png'' ''out.png'' 60
           = Inr ((in_store three_pixels)(''out.png'' \<mapsto> res), ''out.png'')
         \<and> pixel_at res 0 0 = RGBA 0 0 0 0
         \<and> pixel_at res (Suc 0) 0 = RGBA 190 95 245 196
         \<and> pixel_at res 2 0 = RGBA 10 200 10 128"
proof -
  obtain res where
    r: "chroma_key_magenta (in_store three_pixels) ''in.png'' ''out.png'' 60
           = Inr ((in_store three_pixels)(''out.png'' \<mapsto> res), ''out.png'')"
    and a: "\<And>x y. x < width three_pixels \<and> y < height three_pixels \<Longrightarrow>
                 (magenta_mask 60 (pixel_at three_pixels x y) \<longrightarrow> pixel_at res x y = RGBA 0 0 0 0)
               \<and> (\<not> magenta_mask 60 (pixel_at three_pixels x y)
                    \<and> magenta_distance (pixel_at three_pixels x y) < real_of_int (60 * 2) \<longrightarrow>
                    pixel_at res x y
                      = RGBA (red (pixel_at three_pixels x y))
                          (despill (green (pixel_at three_pixels x y)))
                          (blue (pixel_at three_pixels x y))
                          (edge_alpha 60 (pixel_at three_pixels x y))
                    \<and> pixel_at res x y \<noteq> RGBA 0 0 0 0)
               \<and> (\<not> magenta_mask 60 (pixel_at three_pixels x y)
                    \<and> \<not> magenta_distance (pixel_at three_pixels x y) < real_of_int (60 * 2) \<longrightarrow>
                    pixel_at res x y = pixel_at three_pixels x y)"
    using chroma_key_magenta_selection
      [OF open_in_store loadable_three_pixels, of "''out.png''" 60]
    by blast
  have "pixel_at res 0 0 = RGBA 0 0 0 0"
    using a [of 0 0] by (simp add: three_pixels_at three_pixels_size magenta_mask_def)
  moreover have "pixel_at res (Suc 0) 0 = RGBA 190 95 245 196"
    using a [of "Suc 0" 0] three_pixels_near(1)
    by (simp add: three_pixels_at three_pixels_size magenta_mask_def near_magenta_iff
        edge_alpha_sample despill_def)
  moreover have "pixel_at res 2 0 = RGBA 10 200 10 128"
    using a [of 2 0] three_pixels_near(2)
    by (simp add: three_pixels_at three_pixels_size magenta_mask_def near_magenta_iff)
  ultimately show ?thesis
    using r by blast
qed

text \<open>
  C2 as stated fails: at tolerance 60 the pixels \<open>(200, 50, 200)\<close> and \<open>(190, 65, 245)\<close>
  are at the same distance from magenta; the first is made \<open>(0, 0, 0, 0)\<close>, the second
  keeps its colour and gets alpha 196.
\<close>

theorem chroma_key_magenta_distance_counterexample:
  "chroma_key_magenta (in_store three_pixels) ''in.png'' ''out.png'' 60
     = Inr ((in_store three_pixels)(''out.png'' \<mapsto>
              \<lparr>width = 3, height = 1,
               rows = [[RGBA 0 0 0 0, RGBA 190 95 245 196, RGBA 10 200 10 128]]\<rparr>),
            ''out.png'')
   \<and> magenta_distance (RGBA 200 50 200 255) = magenta_distance (RGBA 190 65 245 255)"
proof -
  have "chroma_key_data 60 (rows three_pixels)
          = [[RGBA 0 0 0 0, RGBA 190 95 245 196, RGBA 10 200 10 128]]"
    by code_simp
  then have "chroma_key_magenta (in_store three_pixels) ''in.png'' ''out.png'' 60
     = Inr ((in_store three_pixels)(''out.png'' \<mapsto>
              \<lparr>width = 3, height = 1,
               rows = [[RGBA 0 0 0 0, RGBA 190 95 245 196, RGBA 10 200 10 128]]\<rparr>),
            ''out.png'')"
    by (simp add: chroma_key_magenta_def open_in_store image_save_def three_pixels_def)
  moreover have "magenta_distance (RGBA 200 50 200 255) = magenta_distance (RGBA 190 65 245 255)"
    by (simp add: magenta_distance_def magenta_dist2_def)
  ultimately show ?thesis by simp
qed

text \<open>
  C8. Every pixel whose distance to magenta is at least twice the tolerance and which
  is not in the core mask has the same four channels in the output.
\<close>

theorem chroma_key_magenta_far_unchanged:
  assumes "image_open store input_path = Inr im" and "loadable im"
  shows "\<exists>res. chroma_key_magenta store input_path output_path t
                 = Inr (store(output_path \<mapsto> res), output_path)
           \<and> (\<forall>x y. x < width im \<and> y < height im
                 \<and> real_of_int (2 * t) \<le> magenta_distance (pixel_at im x y)
                 \<and> \<not> magenta_mask t (pixel_at im x y)
                 \<longrightarrow> pixel_at res x y = pixel_at im x y)"
proof -
  let ?res = "im\<lparr>rows := map (map (chroma_key_pixel t)) (rows im)\<rparr>"
  have wf: "wf_img im"
    using assms(2) by (simp add: loadable_def)
  have "pixel_at ?res x y = pixel_at im x y"
    if "x < width im" "y < height im"
      "real_of_int (2 * t) \<le> magenta_distance (pixel_at im x y)"
      "\<not> magenta_mask t (pixel_at im x y)" for x y
  proof -
    have "\<not> near_magenta t (pixel_at im x y)"
      using that(3) by (simp add: near_magenta_iff mult.commute)
    then show ?thesis
      using that(4) pixel_at_map [OF wf that(1,2)] by (simp add: chroma_key_pixel_def)
  qed
  then show ?thesis
    using chroma_key_magenta_result [OF assms, of output_path t]
    by (intro exI [of _ ?res]) simp
qed

theorem chroma_key_magenta_far_unchanged_witness:
  "\<exists>res. chroma_key_magenta (in_store three_pixels) ''in.png'' ''out.png'' 60
           = Inr ((in_store three_pixels)(''out.png'' \<mapsto> res), ''out.png'')
         \<and> pixel_at res 2 0 = RGBA 10 200 10 128"
proof -
  obtain res where
    r: "chroma_key_magenta (in_store three_pixels) ''in.png'' ''out.png'' 60
           = Inr ((in_store three_pixels)(''out.png'' \<mapsto> res), ''out.png'')"
    and a: "\<And>x y. x < width three_pixels \<and> y < height three_pixels
                 \<and> real_of_int (2 * 60) \<le> magenta_distance (pixel_at three_pixels x y)
                 \<and> \<not> magenta_mask 60 (pixel_at three_pixels x y)
                 \<Longrightarrow> pixel_at res x y = pixel_at three_pixels x y"
    using chroma_key_magenta_far_unchanged
      [OF open_in_store loadable_three_pixels, of "''out.png''" 60]
    by blast
  have "\<not> magenta_distance (RGBA 10 200 10 128) < real_of_int (60 * 2)"
    using three_pixels_near(2) unfolding near_magenta_iff .
  then have "pixel_at res 2 0 = RGBA 10 200 10 128"
    using a [of 2 0] by (simp add: three_pixels_at three_pixels_size magenta_mask_def)
  with r show ?thesis by blast
qed

section \<open>Properties of the file operations\<close>

lemma save_to_ok:
  "0 < width im \<Longrightarrow> 0 < height im \<Longrightarrow> save_to store p im = Inr (store(p \<mapsto> im), p)"
  by (simp add: save_to_def image_save_def)

lemma image_open_update: "image_open (store(p \<mapsto> im)) p = Inr im"
  by (simp add: image_open_def)

lemma flip_left_right_twice: "flip_left_right (flip_left_right im) = im"
  by (simp add: flip_left_right_def o_def)

lemma flip_left_right_size:
  "width (flip_left_right im) = width im" "height (flip_left_right im) = height im"
  by (simp_all add: flip_left_right_def)

text \<open>
  C6. Mirroring the mirrored file gives back the image that was mirrored first, pixel
  for pixel.
\<close>

theorem mirror_horizontal_self_inverse:
  assumes "image_open store input_path = Inr im" and "loadable im"
  shows "\<exists>store1. mirror_horizontal store input_path mid_path = Inr (store1, mid_path)
           \<and> mirror_horizontal store1 mid_path output_path
               = Inr (store1(output_path \<mapsto> im), output_path)"
proof -
  let ?store1 = "store(mid_path \<mapsto> flip_left_right im)"
  have pos: "0 < width im" "0 < height im"
    using assms(2) by (simp_all add: loadable_def)
  have "mirror_horizontal store input_path mid_path = Inr (?store1, mid_path)"
    using assms(1) pos by (simp add: mirror_horizontal_def save_to_ok flip_left_right_size)
  moreover have "mirror_horizontal ?store1 mid_path output_path
                   = Inr (?store1(output_path \<mapsto> im), output_path)"
    using pos
    by (simp add: mirror_horizontal_def image_open_update save_to_ok flip_left_right_twice)
  ultimately show ?thesis by blast
qed

theorem mirror_horizontal_self_inverse_witness:
  "\<exists>store1. mirror_horizontal (in_store three_pixels) ''in.png'' ''mid.png''
                = Inr (store1, ''mid.png'')
         \<and> mirror_horizontal store1 ''mid.png'' ''out.png''
               = Inr (store1(''out.png'' \<mapsto> three_pixels), ''out.png'')"
  using mirror_horizontal_self_inverse
    [OF open_in_store loadable_three_pixels, of "''mid.png''" "''out.png''"]
  by simp

section \<open>Properties of resizing\<close>

lemma nearest_source_less:
  assumes "0 < n_in" and "i < n_out"
  shows "nearest_source n_in n_out i < n_in"
proof -
  have "2 * i + 1 < 2 * n_out"
    using assms(2) by simp
  then have "(2 * i + 1) * n_in < (2 * n_out) * n_in"
    using assms(1) by (rule mult_less_mono1)
  then have "(2 * i + 1) * n_in < n_in * (2 * n_out)"
    by (simp only: mult.commute)
  then show ?thesis
    unfolding nearest_source_def by (rule less_mult_imp_div_less)
qed

lemma nearest_source_is_nearest:
  assumes "0 < n_out"
  shows "is_nearest n_in n_out i (nearest_source n_in n_out i)"
proof -
  define a where "a = (2 * int i + 1) * int n_in"
  define b where "b = 2 * int n_out"
  have b: "0 < b" using assms by (simp add: b_def)
  have q: "int (nearest_source n_in n_out i) = a div b"
    unfolding nearest_source_def a_def b_def
    by (simp only: zdiv_int of_nat_mult of_nat_add of_nat_numeral of_nat_1)
  have "b * (a div b) \<le> a" "a < b * (a div b) + b"
    using b by (simp_all add: pos_mod_bound pos_mod_sign mult_div_mod_eq [symmetric]
        div_mult_mod_eq minus_mod_eq_mult_div [symmetric])
  then show ?thesis
    unfolding is_nearest_def q using a_def b_def by (simp add: algebra_simps)
qed


lemma pixel_at_table:
  "x < w \<Longrightarrow> y < h \<Longrightarrow>
   pixel_at \<lparr>width = w', height = h',
             rows = map (\<lambda>y. map (\<lambda>x. f x y) [0..<w]) [0..<h]\<rparr> x y = f x y"
  by (simp add: pixel_at_def)

lemma wf_img_table:
  "wf_img \<lparr>width = w, height = h, rows = map (\<lambda>y. map (\<lambda>x. f x y) [0..<w]) [0..<h]\<rparr>"
  by (simp add: wf_img_def list_all_iff)

text \<open>
  C5. For positive \<open>w\<close> and \<open>h\<close> the image written is exactly \<open>w\<close> by \<open>h\<close>, and each of
  its pixels is the pixel of the input at a nearest source column and row: no value is
  computed from several pixels.
\<close>

theorem resize_nearest_exact:
  assumes "image_open store input_path = Inr im" and "loadable im"
    and "0 < w" and "0 < h"
  shows "\<exists>res. resize_nearest store input_path output_path w h
                 = Inr (store(output_path \<mapsto> res), output_path)
           \<and> wf_img res \<and> int (width res) = w \<and> int (height res) = h
           \<and> (\<forall>x y. x < width res \<and> y < height res \<longrightarrow>
                 (\<exists>sx sy. sx < width im \<and> sy < height im
                    \<and> is_nearest (width im) (width res) x sx
                    \<and> is_nearest (height im) (height res) y sy
                    \<and> pixel_at res x y = pixel_at im sx sy))"
proof -
  let ?sx = "nearest_source (width im) (nat w)"
  let ?sy = "nearest_source (height im) (nat h)"
  let ?res = "\<lparr>width = nat w, height = nat h,
               rows = map (\<lambda>y. map (\<lambda>x. pixel_at im (?sx x) (?sy y)) [0..<nat w])
                          [0..<nat h]\<rparr>"
  have pos: "0 < width im" "0 < height im"
    using assms(2) by (simp_all add: loadable_def)
  have rs: "resize im w h = Inr ?res"
    using assms(3,4) by (simp add: resize_def)
  have run: "resize_nearest store input_path output_path w h
               = Inr (store(output_path \<mapsto> ?res), output_path)"
    using assms(1,3,4) by (simp add: resize_nearest_def rs save_to_ok)
  have px: "\<exists>sx sy. sx < width im \<and> sy < height im
                    \<and> is_nearest (width im) (width ?res) x sx
                    \<and> is_nearest (height im) (height ?res) y sy
                    \<and> pixel_at ?res x y = pixel_at im sx sy"
    if "x < width ?res \<and> y < height ?res" for x y
  proof -
    have xy: "x < nat w" "y < nat h"
      using that by simp_all
    have "?sx x < width im"
      using pos(1) xy(1) by (rule nearest_source_less)
    moreover have "?sy y < height im"
      using pos(2) xy(2) by (rule nearest_source_less)
    moreover have "is_nearest (width im) (width ?res) x (?sx x)"
      using assms(3) by (simp add: nearest_source_is_nearest)
    moreover have "is_nearest (height im) (height ?res) y (?sy y)"
      using assms(4) by (simp add: nearest_source_is_nearest)
    moreover have "pixel_at ?res x y = pixel_at im (?sx x) (?sy y)"
      using xy by (rule pixel_at_table)
    ultimately show ?thesis
      by blast
  qed
  show ?thesis
  proof (intro exI [of _ ?res] conjI allI impI)
    show "resize_nearest store input_path output_path w h
            = Inr (store(output_path \<mapsto> ?res), output_path)"
      by (rule run)
    show "wf_img ?res"
      by (rule wf_img_table)
    show "int (width ?res) = w" "int (height ?res) = h"
      using assms(3,4) by simp_all
  next
    fix x y
    assume "x < width ?res \<and> y < height ?res"
    then show "\<exists>sx sy. sx < width im \<and> sy < height im
                    \<and> is_nearest (width im) (width ?res) x sx
                    \<and> is_nearest (height im) (height ?res) y sy
                    \<and> pixel_at ?res x y = pixel_at im sx sy"
      by (rule px)
  qed
qed


theorem resize_nearest_exact_witness:
  "\<exists>res. resize_nearest (in_store three_pixels) ''in.png'' ''out.png'' 6 2
           = Inr ((in_store three_pixels)(''out.png'' \<mapsto> res), ''out.png'')
         \<and> wf_img res \<and> int (width res) = 6 \<and> int (height res) = 2"
proof -
  have "(0::int) < 6" "(0::int) < 2"
    by simp_all
  from resize_nearest_exact [OF open_in_store loadable_three_pixels this, of "''out.png''"]
  show ?thesis
    by blast
qed

section \<open>Properties of trimming\<close>

lemma getbbox_transparent:
  assumes "wf_img im"
    and "\<And>x y. x < width im \<Longrightarrow> y < height im \<Longrightarrow> alpha (pixel_at im x y) = 0"
  shows "getbbox im = None"
proof -
  have "\<not> list_ex opaque_px (rows im ! y)" if "y < height im" for y
  proof
    assume "list_ex opaque_px (rows im ! y)"
    then obtain x where "x < length (rows im ! y)" "opaque_px (rows im ! y ! x)"
      by (auto simp: list_ex_length)
    then show False
      using assms(2) [of x y] that wf_img_row [OF assms(1) that]
      by (simp add: opaque_px_def pixel_at_def)
  qed
  then have "content_rows im = []"
    by (simp add: content_rows_def filter_empty_conv)
  then show ?thesis
    by (simp add: getbbox_def)
qed

text \<open>
  C9. A fully transparent image has no bounding box, and trimming writes it as it is,
  whatever the padding.
\<close>

theorem trim_to_content_transparent:
  assumes "image_open store input_path = Inr im" and "loadable im"
    and "\<forall>x y. x < width im \<and> y < height im \<longrightarrow> alpha (pixel_at im x y) = 0"
  shows "getbbox im = None
         \<and> trim_to_content store input_path output_path padding
             = Inr (store(output_path \<mapsto> im), output_path)"
proof -
  have "wf_img im" "0 < width im" "0 < height im"
    using assms(2) by (simp_all add: loadable_def)
  moreover from this have "getbbox im = None"
    using assms(3) by (intro getbbox_transparent) simp_all
  ultimately show ?thesis
    using assms(1) by (simp add: trim_to_content_def save_to_ok)
qed


theorem trim_to_content_transparent_witness:
  "getbbox clear_pixels = None
   \<and> trim_to_content (in_store clear_pixels) ''in.png'' ''out.png'' 8
       = Inr ((in_store clear_pixels)(''out.png'' \<mapsto> clear_pixels), ''out.png'')"
proof -
  have l: "loadable clear_pixels"
    by (simp add: loadable_def wf_img_def clear_pixels_def)
  have t: "\<forall>x y. x < width clear_pixels \<and> y < height clear_pixels
             \<longrightarrow> alpha (pixel_at clear_pixels x y) = 0"
    by (auto simp: clear_pixels_def pixel_at_def less_Suc_eq numeral_2_eq_2)
  show ?thesis
    using trim_to_content_transparent [OF open_in_store l t, of "''out.png''" 8] .
qed

lemma sorted_hd_le_last:
  fixes xs :: "nat list"
  assumes "sorted xs" and "xs \<noteq> []"
  shows "hd xs \<le> last xs"
proof (cases xs)
  case Nil
  with assms(2) show ?thesis by simp
next
  case (Cons x ys)
  show ?thesis
  proof (cases "ys = []")
    case True
    with Cons show ?thesis by simp
  next
    case False
    then have "last ys \<in> set ys" by (rule last_in_set)
    then have "x \<le> last ys"
      using assms(1) Cons by auto
    with Cons False show ?thesis by simp
  qed
qed

lemma filter_upt_bounds:
  assumes "filter P [0..<n] \<noteq> []"
  shows "hd (filter P [0..<n]) \<le> last (filter P [0..<n])"
    and "last (filter P [0..<n]) < n"
proof -
  have "sorted (filter P [0..<n])"
    by (simp add: sorted_wrt_filter)
  then show "hd (filter P [0..<n]) \<le> last (filter P [0..<n])"
    using assms by (rule sorted_hd_le_last)
  have "last (filter P [0..<n]) \<in> set (filter P [0..<n])"
    using assms by (rule last_in_set)
  then show "last (filter P [0..<n]) < n"
    by simp
qed

lemma getbbox_bounds:
  assumes "getbbox im = Some (l, u, r, b)"
  shows "0 \<le> l \<and> l < r \<and> r \<le> int (width im) \<and> 0 \<le> u \<and> u < b \<and> b \<le> int (height im)"
proof -
  have ne: "content_columns im \<noteq> []" "content_rows im \<noteq> []"
    using assms by (auto simp: getbbox_def split: if_splits)
  have eq: "l = int (hd (content_columns im))" "r = int (last (content_columns im)) + 1"
    "u = int (hd (content_rows im))" "b = int (last (content_rows im)) + 1"
    using assms ne by (simp_all add: getbbox_def)
  have "hd (content_columns im) \<le> last (content_columns im)"
    "last (content_columns im) < width im"
    using ne(1) filter_upt_bounds unfolding content_columns_def by blast+
  moreover have "hd (content_rows im) \<le> last (content_rows im)"
    "last (content_rows im) < height im"
    using ne(2) filter_upt_bounds unfolding content_rows_def by blast+
  ultimately show ?thesis
    unfolding eq by simp
qed

lemma crop_inside:
  assumes "0 \<le> l" and "l \<le> r" and "r \<le> int (width im)"
    and "0 \<le> u" and "u \<le> b" and "b \<le> int (height im)"
  shows "\<exists>res. crop im (l, u, r, b) = Inr res \<and> wf_img res
           \<and> int (width res) = r - l \<and> int (height res) = b - u
           \<and> (\<forall>x y. x < width res \<and> y < height res \<longrightarrow>
                 pixel_at res x y = pixel_at im (nat l + x) (nat u + y))"
proof -
  let ?res = "\<lparr>width = nat (r - l), height = nat (b - u),
               rows = map (\<lambda>y. map (\<lambda>x. pixel_or_blank im (l + int x) (u + int y))
                                      [0..<nat (r - l)])
                          [0..<nat (b - u)]\<rparr>"
  have c: "crop im (l, u, r, b) = Inr ?res"
    using assms(2,5) by (simp add: crop_def)
  have px: "pixel_at ?res x y = pixel_at im (nat l + x) (nat u + y)"
    if "x < width ?res \<and> y < height ?res" for x y
  proof -
    have xy: "x < nat (r - l)" "y < nat (b - u)"
      using that by simp_all
    then have "pixel_at ?res x y = pixel_or_blank im (l + int x) (u + int y)"
      by (rule pixel_at_table)
    also have "\<dots> = pixel_at im (nat (l + int x)) (nat (u + int y))"
    proof -
      have "0 \<le> l + int x" "l + int x < int (width im)"
        "0 \<le> u + int y" "u + int y < int (height im)"
        using xy assms by linarith+
      then show ?thesis
        by (simp add: pixel_or_blank_def)
    qed
    also have "\<dots> = pixel_at im (nat l + x) (nat u + y)"
      using assms(1,4) by (simp add: nat_add_distrib)
    finally show ?thesis .
  qed
  show ?thesis
  proof (intro exI [of _ ?res] conjI allI impI)
    show "crop im (l, u, r, b) = Inr ?res" by (rule c)
    show "wf_img ?res" by (rule wf_img_table)
    show "int (width ?res) = r - l" "int (height ?res) = b - u"
      using assms(2,5) by simp_all
  next
    fix x y
    assume "x < width ?res \<and> y < height ?res"
    then show "pixel_at ?res x y = pixel_at im (nat l + x) (nat u + y)"
      by (rule px)
  qed
qed

text \<open>
  C4, as the code has it. For a padding that is not negative the image written is the
  crop of the input at the bounding box widened by the padding on each side and then
  clamped to the image: left and upper not below 0, right and lower not beyond the
  width and the height. Its size is the size of the clamped box; it is the size of the
  box plus twice the padding when the widened box lies inside the image.
\<close>

theorem trim_to_content_clamped:
  assumes "image_open store input_path = Inr im" and "loadable im"
    and "getbbox im = Some (l, u, r, b)" and "0 \<le> p"
  shows "\<exists>res. trim_to_content store input_path output_path p
                 = Inr (store(output_path \<mapsto> res), output_path)
           \<and> crop im (max 0 (l - p), max 0 (u - p),
                       min (int (width im)) (r + p), min (int (height im)) (b + p)) = Inr res
           \<and> int (width res) = min (int (width im)) (r + p) - max 0 (l - p)
           \<and> int (height res) = min (int (height im)) (b + p) - max 0 (u - p)
           \<and> (\<forall>x y. x < width res \<and> y < height res \<longrightarrow>
                 pixel_at res x y
                   = pixel_at im (nat (max 0 (l - p)) + x) (nat (max 0 (u - p)) + y))
           \<and> (p \<le> l \<and> p \<le> u \<and> r + p \<le> int (width im) \<and> b + p \<le> int (height im) \<longrightarrow>
                 int (width res) = (r - l) + 2 * p \<and> int (height res) = (b - u) + 2 * p)"
proof -
  let ?l = "max 0 (l - p)" and ?u = "max 0 (u - p)"
  let ?r = "min (int (width im)) (r + p)" and ?b = "min (int (height im)) (b + p)"
  have bb: "0 \<le> l" "l < r" "r \<le> int (width im)" "0 \<le> u" "u < b" "b \<le> int (height im)"
    using getbbox_bounds [OF assms(3)] by simp_all
  have box: "0 \<le> ?l" "?l < ?r" "?r \<le> int (width im)" "0 \<le> ?u" "?u < ?b" "?b \<le> int (height im)"
    using bb assms(4) by simp_all
  obtain res where res: "crop im (?l, ?u, ?r, ?b) = Inr res"
    "int (width res) = ?r - ?l" "int (height res) = ?b - ?u"
    "\<forall>x y. x < width res \<and> y < height res \<longrightarrow>
       pixel_at res x y = pixel_at im (nat ?l + x) (nat ?u + y)"
    using crop_inside [of ?l ?r im ?u ?b] box by force
  have "0 < int (width res)" "0 < int (height res)"
    using res(2,3) box(2,5) by linarith+
  then have pos: "0 < width res" "0 < height res"
    by simp_all
  have run: "trim_to_content store input_path output_path p
               = Inr (store(output_path \<mapsto> res), output_path)"
    using assms(1,3) res(1) pos by (simp add: trim_to_content_def save_to_ok)
  have fit: "int (width res) = (r - l) + 2 * p \<and> int (height res) = (b - u) + 2 * p"
    if "p \<le> l \<and> p \<le> u \<and> r + p \<le> int (width im) \<and> b + p \<le> int (height im)"
    using that res(2,3) by simp
  show ?thesis
    using run res fit by (intro exI [of _ res]) blast
qed


theorem trim_to_content_clamped_witness:
  "\<exists>res. trim_to_content (in_store framed_dot) ''in.png'' ''out.png'' 1
           = Inr ((in_store framed_dot)(''out.png'' \<mapsto> res), ''out.png'')
         \<and> int (width res) = (2 - 1) + 2 * 1 \<and> int (height res) = (2 - 1) + 2 * 1
         \<and> pixel_at res 1 1 = pixel_at framed_dot 1 1"
proof -
  have l: "loadable framed_dot"
    by (simp add: loadable_def wf_img_def framed_dot_def)
  have b: "getbbox framed_dot = Some (1, 1, 2, 2)"
    by code_simp
  have p: "(0::int) \<le> 1"
    by simp
  have sz: "int (width framed_dot) = 3" "int (height framed_dot) = 3"
    by (simp_all add: framed_dot_def)
  obtain res where
    r: "trim_to_content (in_store framed_dot) ''in.png'' ''out.png'' 1
           = Inr ((in_store framed_dot)(''out.png'' \<mapsto> res), ''out.png'')"
    and w: "1 \<le> (1::int) \<and> 1 \<le> (1::int) \<and> 2 + 1 \<le> int (width framed_dot)
              \<and> 2 + 1 \<le> int (height framed_dot) \<longrightarrow>
            int (width res) = (2 - 1) + 2 * 1 \<and> int (height res) = (2 - 1) + 2 * 1"
    and px: "\<forall>x y. x < width res \<and> y < height res \<longrightarrow>
               pixel_at res x y
                 = pixel_at framed_dot (nat (max 0 (1 - 1)) + x) (nat (max 0 (1 - 1)) + y)"
    using trim_to_content_clamped [OF open_in_store l b p, of "''out.png''"]
    by blast
  have d: "int (width res) = (2 - 1) + 2 * 1 \<and> int (height res) = (2 - 1) + 2 * 1"
    using w sz by simp
  then have "1 < width res \<and> 1 < height res"
    by simp
  then have "pixel_at res 1 1 = pixel_at framed_dot 1 1"
    using px [rule_format, of 1 1] by simp
  with r d show ?thesis
    by blast
qed

text \<open>
  C4 as stated fails. The bounding box of \<open>three_pixels\<close> is the whole image, three by
  one; with padding 8 the image written is three wide, not \<open>3 + 2 * 8\<close>. With padding
  \<open>-1\<close> the padded box has its lower edge above its upper edge and the crop raises.
\<close>

theorem trim_to_content_padding_counterexample:
  "getbbox three_pixels = Some (0, 0, 3, 1)
   \<and> trim_to_content (in_store three_pixels) ''in.png'' ''out.png'' 8
       = Inr ((in_store three_pixels)(''out.png'' \<mapsto> three_pixels), ''out.png'')
   \<and> int (width three_pixels) \<noteq> (3 - 0) + 2 * 8
   \<and> trim_to_content (in_store three_pixels) ''in.png'' ''out.png'' (- 1) = Inl ValueError"
proof -
  have b: "getbbox three_pixels = Some (0, 0, 3, 1)"
    by code_simp
  have c: "crop three_pixels (0, 0, 3, 1) = Inr three_pixels"
    by code_simp
  have "trim_to_content (in_store three_pixels) ''in.png'' ''out.png'' 8
       = Inr ((in_store three_pixels)(''out.png'' \<mapsto> three_pixels), ''out.png'')"
    by (simp add: trim_to_content_def open_in_store b three_pixels_size c save_to_ok)
  moreover have "trim_to_content (in_store three_pixels) ''in.png'' ''out.png'' (- 1)
                   = Inl ValueError"
    by (simp add: trim_to_content_def open_in_store b three_pixels_size crop_def)
  ultimately show ?thesis
    using b by (simp add: three_pixels_size)
qed


section \<open>Properties of slicing\<close>

lemma digit_char_value: "d < 10 \<Longrightarrow> of_char (digit_char d) - 48 = d"
  by (simp add: digit_char_def)

lemma digits_value_snoc:
  "digits_value (s @ [c]) = 10 * digits_value s + (of_char c - 48)"
  by (simp add: digits_value_def)

lemma digits_value_decimal: "digits_value (decimal n) = n"
proof (induction n rule: decimal.induct)
  case (1 n)
  show ?case
  proof (cases "n < 10")
    case True
    then show ?thesis
      by (subst decimal.simps) (simp add: digits_value_def digit_char_value)
  next
    case False
    have "digits_value (decimal n)
            = 10 * digits_value (decimal (n div 10)) + (of_char (digit_char (n mod 10)) - 48)"
      using False by (subst decimal.simps) (simp add: digits_value_snoc)
    also have "\<dots> = 10 * (n div 10) + n mod 10"
      using False "1.IH" by (simp add: digit_char_value)
    finally show ?thesis by simp
  qed
qed

lemma digits_value_zeros:
  "foldl (\<lambda>a c. 10 * a + (of_char c - 48)) 0 (replicate k (CHR ''0'')) = (0::nat)"
  by (induction k) simp_all

lemma digits_value_zero_pad: "digits_value (zero_pad w s) = digits_value s"
  by (simp add: digits_value_def zero_pad_def digits_value_zeros)

lemma frame_name_inj:
  assumes "frame_name base i = frame_name base j"
  shows "i = j"
proof -
  have "zero_pad 3 (decimal i) = zero_pad 3 (decimal j)"
    using assms by (simp add: frame_name_def)
  then have "digits_value (zero_pad 3 (decimal i)) = digits_value (zero_pad 3 (decimal j))"
    by simp
  then show ?thesis
    by (simp add: digits_value_zero_pad digits_value_decimal)
qed

lemma frame_name_head:
  "frame_name base i \<noteq> []"
  "hd (frame_name base i) = (if base = [] then CHR ''_'' else hd base)"
  by (simp_all add: frame_name_def hd_append)

lemma path_join_inj:
  assumes "path_join d a = path_join d b" and "a \<noteq> []" and "b \<noteq> []" and "hd a = hd b"
  shows "a = b"
  using assms by (auto simp: path_join_def split: if_splits)

lemma frame_path_inj: "inj_on (frame_path output_dir base) A"
proof (rule inj_onI)
  fix i j
  assume "frame_path output_dir base i = frame_path output_dir base j"
  then have "frame_name base i = frame_name base j"
    unfolding frame_path_def
    by (rule path_join_inj) (simp_all add: frame_name_head)
  then show "i = j"
    by (rule frame_name_inj)
qed

lemma fold_write_other:
  "p \<notin> f ` set xs \<Longrightarrow> fold (\<lambda>i s. s(f i \<mapsto> g i)) xs s p = s p"
  by (induction xs arbitrary: s) simp_all

lemma fold_write_hit:
  assumes "inj_on f (set xs)" and "i \<in> set xs"
  shows "fold (\<lambda>i s. s(f i \<mapsto> g i)) xs s (f i) = Some (g i)"
  using assms
proof (induction xs arbitrary: s)
  case Nil
  then show ?case by simp
next
  case (Cons x xs)
  show ?case
  proof (cases "i \<in> set xs")
    case True
    moreover have "inj_on f (set xs)"
      using Cons.prems(1) by (simp add: inj_on_def)
    ultimately show ?thesis
      using Cons.IH by simp
  next
    case False
    then have ix: "i = x"
      using Cons.prems(2) by simp
    have "f x \<notin> f ` set xs"
      using Cons.prems(1) False ix by (auto simp: inj_on_def)
    then have "fold (\<lambda>i s. s(f i \<mapsto> g i)) xs (s(f x \<mapsto> g x)) (f x)
                 = (s(f x \<mapsto> g x)) (f x)"
      by (rule fold_write_other)
    also have "\<dots> = Some (g x)"
      by simp
    finally show ?thesis
      unfolding ix by (simp del: fun_upd_apply)
  qed
qed

lemma save_frames_run:
  assumes "\<And>i. i \<in> set xs \<Longrightarrow>
             crop sheet (frame_box fw fh i) = Inr (F i) \<and> 0 < width (F i) \<and> 0 < height (F i)"
  shows "save_frames store sheet output_dir base fw fh xs
           = Inr (fold (\<lambda>i s. s(frame_path output_dir base i \<mapsto> F i)) xs store)"
  using assms
proof (induction xs arbitrary: store)
  case Nil
  then show ?case by simp
next
  case (Cons i xs)
  have "crop sheet (frame_box fw fh i) = Inr (F i)" "0 < width (F i)" "0 < height (F i)"
    using Cons.prems [of i] by simp_all
  then show ?case
    using Cons.IH [of "store(frame_path output_dir base i \<mapsto> F i)"] Cons.prems
    by (simp add: image_save_def del: fun_upd_apply)
qed

lemma frame_crop:
  assumes "0 < m" and "m \<le> width sheet" and "i < m"
  shows "\<exists>frame. crop sheet (frame_box (int (width sheet) div int m) (int (height sheet)) i)
                   = Inr frame
           \<and> wf_img frame \<and> width frame = width sheet div m \<and> height frame = height sheet
           \<and> 0 < width frame
           \<and> (\<forall>x y. x < width frame \<and> y < height frame \<longrightarrow>
                 pixel_at frame x y = pixel_at sheet (i * (width sheet div m) + x) y
                 \<and> i * (width sheet div m) + x < width sheet - width sheet mod m)"
proof -
  define fw where "fw = width sheet div m"
  have fw: "int (width sheet) div int m = int fw"
    by (simp add: fw_def zdiv_int)
  have fw_pos: "0 < fw"
    using assms(1,2) by (simp add: fw_def div_greater_zero_iff)
  have "(i + 1) * fw \<le> m * fw"
    using assms(3) by (intro mult_le_mono1) simp
  also have "m * fw = width sheet - width sheet mod m"
    by (simp add: fw_def minus_mod_eq_mult_div)
  finally have upper: "(i + 1) * fw \<le> width sheet - width sheet mod m" .
  then have inside: "(int i + 1) * int fw \<le> int (width sheet)"
    by (metis diff_le_self le_trans of_nat_1 of_nat_add of_nat_le_iff of_nat_mult)
  obtain frame where f: "crop sheet (int i * int fw, 0, (int i + 1) * int fw, int (height sheet))
                           = Inr frame"
    "wf_img frame" "int (width frame) = (int i + 1) * int fw - int i * int fw"
    "int (height frame) = int (height sheet) - 0"
    "\<forall>x y. x < width frame \<and> y < height frame \<longrightarrow>
       pixel_at frame x y = pixel_at sheet (nat (int i * int fw) + x) (nat 0 + y)"
    using crop_inside [of "int i * int fw" "(int i + 1) * int fw" sheet 0 "int (height sheet)"]
      inside
    by (auto simp: algebra_simps)
  have w: "width frame = fw"
    using f(3) by (simp add: algebra_simps)
  have h: "height frame = height sheet"
    using f(4) by simp
  have px: "pixel_at frame x y = pixel_at sheet (i * fw + x) y
            \<and> i * fw + x < width sheet - width sheet mod m"
    if "x < width frame \<and> y < height frame" for x y
  proof -
    have "nat (int i * int fw) = i * fw"
      by (simp add: nat_mult_distrib)
    then have "pixel_at frame x y = pixel_at sheet (i * fw + x) y"
      using f(5) that by simp
    moreover have "i * fw + x < (i + 1) * fw"
      using that w by simp
    ultimately show ?thesis
      using upper by simp
  qed
  have wpos: "0 < width frame"
    using w fw_pos by simp
  have pxall: "\<forall>x y. x < width frame \<and> y < height frame \<longrightarrow>
                 pixel_at frame x y = pixel_at sheet (i * fw + x) y
                 \<and> i * fw + x < width sheet - width sheet mod m"
    using px by blast
  show ?thesis
    unfolding frame_box_def fw fw_def [symmetric]
    using f(1,2) w h wpos pxall by blast
qed

lemma slice_sprite_sheet_result:
  assumes "image_open store sheet_path = Inr sheet" and "loadable sheet"
    and "1 \<le> n" and "n \<le> int (width sheet)"
  shows "\<exists>F. slice_sprite_sheet store sheet_path output_dir base n
               = Inr (fold (\<lambda>i s. s(frame_path output_dir base i \<mapsto> F i)) [0..<nat n] store, n)
           \<and> (\<forall>i. i < nat n \<longrightarrow>
                 crop sheet (frame_box (int (width sheet) div n) (int (height sheet)) i)
                   = Inr (F i)
                 \<and> wf_img (F i) \<and> width (F i) = width sheet div nat n
                 \<and> height (F i) = height sheet
                 \<and> (\<forall>x y. x < width (F i) \<and> y < height (F i) \<longrightarrow>
                       pixel_at (F i) x y = pixel_at sheet (i * (width sheet div nat n) + x) y
                       \<and> i * (width sheet div nat n) + x
                           < width sheet - width sheet mod nat n))"
proof -
  define m where "m = nat n"
  have m: "0 < m" "m \<le> width sheet" "n = int m"
    using assms(3,4) by (simp_all add: m_def)
  define F where
    "F i = projr (crop sheet (frame_box (int (width sheet) div n) (int (height sheet)) i))" for i
  have frames: "crop sheet (frame_box (int (width sheet) div n) (int (height sheet)) i)
                   = Inr (F i)
           \<and> wf_img (F i) \<and> width (F i) = width sheet div m \<and> height (F i) = height sheet
           \<and> 0 < width (F i)
           \<and> (\<forall>x y. x < width (F i) \<and> y < height (F i) \<longrightarrow>
                 pixel_at (F i) x y = pixel_at sheet (i * (width sheet div m) + x) y
                 \<and> i * (width sheet div m) + x < width sheet - width sheet mod m)"
    if "i < m" for i
    using frame_crop [OF m(1,2) that] unfolding F_def m(3) by fastforce
  have hpos: "0 < height sheet"
    using assms(2) by (simp add: loadable_def)
  have ok: "crop sheet (frame_box (int (width sheet) div n) (int (height sheet)) i) = Inr (F i)
            \<and> 0 < width (F i) \<and> 0 < height (F i)"
    if "i \<in> set [0..<m]" for i
  proof -
    have "i < m"
      using that by simp
    from frames [OF this] hpos show ?thesis
      by simp
  qed
  have "save_frames store sheet output_dir base (int (width sheet) div n) (int (height sheet))
          [0..<m]
        = Inr (fold (\<lambda>i s. s(frame_path output_dir base i \<mapsto> F i)) [0..<m] store)"
    using ok by (rule save_frames_run)
  then have "slice_sprite_sheet store sheet_path output_dir base n
               = Inr (fold (\<lambda>i s. s(frame_path output_dir base i \<mapsto> F i)) [0..<m] store, n)"
    using assms(1,3) by (simp add: slice_sprite_sheet_def m_def)
  then show ?thesis
    using frames unfolding m_def by (intro exI [of _ F]) blast
qed


lemma sample_frame_path: "frame_path ''frames'' ''walk'' 1 = ''frames/walk_f001.png''"
  by code_simp

text \<open>
  C3, as the code has it. For a frame count \<open>n\<close> from 1 to the width of the sheet the
  function returns \<open>n\<close> and writes exactly \<open>n\<close> files, under \<open>n\<close> different names; file \<open>i\<close>
  holds the crop of columns \<open>[i * (W div n), (i + 1) * (W div n))\<close>, \<open>W div n\<close> wide and as
  tall as the sheet; no other path of the store changes.
\<close>

theorem slice_sprite_sheet_frames:
  assumes "image_open store sheet_path = Inr sheet" and "loadable sheet"
    and "1 \<le> n" and "n \<le> int (width sheet)"
  shows "\<exists>store'. slice_sprite_sheet store sheet_path output_dir base n = Inr (store', n)
           \<and> distinct (map (frame_path output_dir base) [0..<nat n])
           \<and> (\<forall>p. p \<notin> set (map (frame_path output_dir base) [0..<nat n]) \<longrightarrow>
                 store' p = store p)
           \<and> (\<forall>i. i < nat n \<longrightarrow>
                 (\<exists>frame. store' (frame_path output_dir base i) = Some frame
                    \<and> crop sheet (int i * (int (width sheet) div n), 0,
                                  (int i + 1) * (int (width sheet) div n), int (height sheet))
                        = Inr frame
                    \<and> int (width frame) = int (width sheet) div n
                    \<and> height frame = height sheet
                    \<and> (\<forall>x y. x < width frame \<and> y < height frame \<longrightarrow>
                          pixel_at frame x y = pixel_at sheet (i * width frame + x) y)))"
proof -
  obtain F where
    run: "slice_sprite_sheet store sheet_path output_dir base n
            = Inr (fold (\<lambda>i s. s(frame_path output_dir base i \<mapsto> F i)) [0..<nat n] store, n)"
    and fr: "\<And>i. i < nat n \<Longrightarrow>
                 crop sheet (frame_box (int (width sheet) div n) (int (height sheet)) i)
                   = Inr (F i)
                 \<and> wf_img (F i) \<and> width (F i) = width sheet div nat n
                 \<and> height (F i) = height sheet
                 \<and> (\<forall>x y. x < width (F i) \<and> y < height (F i) \<longrightarrow>
                       pixel_at (F i) x y = pixel_at sheet (i * (width sheet div nat n) + x) y
                       \<and> i * (width sheet div nat n) + x
                           < width sheet - width sheet mod nat n)"
    using slice_sprite_sheet_result [OF assms, of output_dir base] by blast
  let ?store' = "fold (\<lambda>i s. s(frame_path output_dir base i \<mapsto> F i)) [0..<nat n] store"
  have d: "distinct (map (frame_path output_dir base) [0..<nat n])"
    by (simp add: distinct_map frame_path_inj)
  have other: "?store' p = store p"
    if "p \<notin> set (map (frame_path output_dir base) [0..<nat n])" for p
    using that by (intro fold_write_other) simp
  have wd: "int (width sheet div nat n) = int (width sheet) div n"
    using assms(3) by (simp add: zdiv_int)
  have hit: "\<exists>frame. ?store' (frame_path output_dir base i) = Some frame
                    \<and> crop sheet (int i * (int (width sheet) div n), 0,
                                  (int i + 1) * (int (width sheet) div n), int (height sheet))
                        = Inr frame
                    \<and> int (width frame) = int (width sheet) div n
                    \<and> height frame = height sheet
                    \<and> (\<forall>x y. x < width frame \<and> y < height frame \<longrightarrow>
                          pixel_at frame x y = pixel_at sheet (i * width frame + x) y)"
    if "i < nat n" for i
  proof -
    have "?store' (frame_path output_dir base i) = Some (F i)"
      using that by (intro fold_write_hit frame_path_inj) simp
    moreover have "int (width (F i)) = int (width sheet) div n"
      using fr [OF that] wd by simp
    moreover have "\<forall>x y. x < width (F i) \<and> y < height (F i) \<longrightarrow>
                     pixel_at (F i) x y = pixel_at sheet (i * width (F i) + x) y"
      using fr [OF that] by simp
    ultimately show ?thesis
      using fr [OF that] unfolding frame_box_def by blast
  qed
  show ?thesis
    using run d other hit by (intro exI [of _ ?store']) blast
qed

theorem slice_sprite_sheet_frames_witness:
  "\<exists>store'. slice_sprite_sheet (in_store three_pixels) ''in.png'' ''frames'' ''walk'' 3
              = Inr (store', 3)
         \<and> (\<exists>frame. store' ''frames/walk_f001.png'' = Some frame
               \<and> int (width frame) = 1 \<and> height frame = 1
               \<and> pixel_at frame 0 0 = RGBA 190 65 245 255)"
proof -
  have n: "(1::int) \<le> 3" "(3::int) \<le> int (width three_pixels)"
    by (simp_all add: three_pixels_size)
  obtain store' where
    run: "slice_sprite_sheet (in_store three_pixels) ''in.png'' ''frames'' ''walk'' 3
            = Inr (store', 3)"
    and fr: "\<forall>i. i < nat 3 \<longrightarrow>
                 (\<exists>frame. store' (frame_path ''frames'' ''walk'' i) = Some frame
                    \<and> crop three_pixels (int i * (int (width three_pixels) div 3), 0,
                                  (int i + 1) * (int (width three_pixels) div 3),
                                  int (height three_pixels))
                        = Inr frame
                    \<and> int (width frame) = int (width three_pixels) div 3
                    \<and> height frame = height three_pixels
                    \<and> (\<forall>x y. x < width frame \<and> y < height frame \<longrightarrow>
                          pixel_at frame x y = pixel_at three_pixels (i * width frame + x) y))"
    using slice_sprite_sheet_frames
      [OF open_in_store loadable_three_pixels n, of "''frames''" "''walk''"]
    by blast
  obtain frame where
    f: "store' (frame_path ''frames'' ''walk'' 1) = Some frame"
      "int (width frame) = int (width three_pixels) div 3"
      "height frame = height three_pixels"
      "\<forall>x y. x < width frame \<and> y < height frame \<longrightarrow>
         pixel_at frame x y = pixel_at three_pixels (1 * width frame + x) y"
    using fr [rule_format, of 1] by auto
  have sz: "width frame = 1" "height frame = 1"
    using f(2,3) by (simp_all add: three_pixels_size)
  have "pixel_at frame 0 0 = RGBA 190 65 245 255"
    using f(4) [rule_format, of 0 0] sz by (simp add: three_pixels_at)
  moreover have "store' ''frames/walk_f001.png'' = Some frame"
    using f(1) unfolding sample_frame_path .
  ultimately show ?thesis
    using run sz by auto
qed

text \<open>
  C3 as stated fails: with frame count 0 the frame width is a division by zero, and
  with a frame count above the width of the sheet the frames are zero pixels wide and
  the first save is refused.
\<close>

theorem slice_sprite_sheet_frames_counterexample:
  "slice_sprite_sheet (in_store three_pixels) ''in.png'' ''frames'' ''walk'' 0
     = Inl ZeroDivisionError
   \<and> slice_sprite_sheet (in_store three_pixels) ''in.png'' ''frames'' ''walk'' 4
       = Inl SystemError"
  by (simp add: slice_sprite_sheet_def open_in_store three_pixels_size upt_rec [of 0]
      frame_box_def crop_def image_save_def)

text \<open>
  C10, as the code has it. With frame count 0 the function raises
  \<^verbatim>\<open>ZeroDivisionError\<close>. With a frame count from 1 to the width of the sheet it returns;
  and every pixel of every frame written comes from a column below
  \<open>W - W mod n\<close>, so the rightmost \<open>W mod n\<close> columns are in no frame.
\<close>

theorem slice_sprite_sheet_precondition:
  assumes "image_open store sheet_path = Inr sheet" and "loadable sheet"
  shows "slice_sprite_sheet store sheet_path output_dir base 0 = Inl ZeroDivisionError
         \<and> (1 \<le> n \<and> n \<le> int (width sheet) \<longrightarrow>
              (\<exists>store'. slice_sprite_sheet store sheet_path output_dir base n = Inr (store', n)
                 \<and> (\<forall>i. i < nat n \<longrightarrow>
                       (\<exists>frame. store' (frame_path output_dir base i) = Some frame
                          \<and> (\<forall>x y. x < width frame \<and> y < height frame \<longrightarrow>
                                (\<exists>c. c < width sheet - width sheet mod nat n
                                   \<and> pixel_at frame x y = pixel_at sheet c y))))))"
proof (intro conjI impI)
  show "slice_sprite_sheet store sheet_path output_dir base 0 = Inl ZeroDivisionError"
    using assms(1) by (simp add: slice_sprite_sheet_def)
next
  assume n: "1 \<le> n \<and> n \<le> int (width sheet)"
  then have n1: "1 \<le> n" and n2: "n \<le> int (width sheet)"
    by simp_all
  obtain F where
    run: "slice_sprite_sheet store sheet_path output_dir base n
            = Inr (fold (\<lambda>i s. s(frame_path output_dir base i \<mapsto> F i)) [0..<nat n] store, n)"
    and fr: "\<And>i. i < nat n \<Longrightarrow>
                 crop sheet (frame_box (int (width sheet) div n) (int (height sheet)) i)
                   = Inr (F i)
                 \<and> wf_img (F i) \<and> width (F i) = width sheet div nat n
                 \<and> height (F i) = height sheet
                 \<and> (\<forall>x y. x < width (F i) \<and> y < height (F i) \<longrightarrow>
                       pixel_at (F i) x y = pixel_at sheet (i * (width sheet div nat n) + x) y
                       \<and> i * (width sheet div nat n) + x
                           < width sheet - width sheet mod nat n)"
    using slice_sprite_sheet_result [OF assms n1 n2, of output_dir base] by blast
  let ?store' = "fold (\<lambda>i s. s(frame_path output_dir base i \<mapsto> F i)) [0..<nat n] store"
  have hit: "\<exists>frame. ?store' (frame_path output_dir base i) = Some frame
                          \<and> (\<forall>x y. x < width frame \<and> y < height frame \<longrightarrow>
                                (\<exists>c. c < width sheet - width sheet mod nat n
                                   \<and> pixel_at frame x y = pixel_at sheet c y))"
    if "i < nat n" for i
  proof -
    have "?store' (frame_path output_dir base i) = Some (F i)"
      using that by (intro fold_write_hit frame_path_inj) simp
    then show ?thesis
      using fr [OF that] by blast
  qed
  show "\<exists>store'. slice_sprite_sheet store sheet_path output_dir base n = Inr (store', n)
                 \<and> (\<forall>i. i < nat n \<longrightarrow>
                       (\<exists>frame. store' (frame_path output_dir base i) = Some frame
                          \<and> (\<forall>x y. x < width frame \<and> y < height frame \<longrightarrow>
                                (\<exists>c. c < width sheet - width sheet mod nat n
                                   \<and> pixel_at frame x y = pixel_at sheet c y))))"
    using run hit by (intro exI [of _ ?store']) blast
qed

theorem slice_sprite_sheet_precondition_witness:
  "slice_sprite_sheet (in_store three_pixels) ''in.png'' ''frames'' ''walk'' 0
     = Inl ZeroDivisionError
   \<and> (\<exists>store'. slice_sprite_sheet (in_store three_pixels) ''in.png'' ''frames'' ''walk'' 2
                  = Inr (store', 2)
          \<and> (\<exists>frame. store' ''frames/walk_f001.png'' = Some frame))"
proof -
  have n: "(1::int) \<le> 2 \<and> (2::int) \<le> int (width three_pixels)"
    by (simp add: three_pixels_size)
  have z: "slice_sprite_sheet (in_store three_pixels) ''in.png'' ''frames'' ''walk'' 0
             = Inl ZeroDivisionError"
    and "\<exists>store'. slice_sprite_sheet (in_store three_pixels) ''in.png'' ''frames'' ''walk'' 2
                  = Inr (store', 2)
          \<and> (\<forall>i. i < nat 2 \<longrightarrow>
                (\<exists>frame. store' (frame_path ''frames'' ''walk'' i) = Some frame
                   \<and> (\<forall>x y. x < width frame \<and> y < height frame \<longrightarrow>
                         (\<exists>c. c < width three_pixels - width three_pixels mod nat 2
                            \<and> pixel_at frame x y = pixel_at three_pixels c y))))"
    using slice_sprite_sheet_precondition
      [OF open_in_store loadable_three_pixels, of "''frames''" "''walk''" 2] n
    by blast+
  then obtain store' where
    run: "slice_sprite_sheet (in_store three_pixels) ''in.png'' ''frames'' ''walk'' 2
            = Inr (store', 2)"
    and fr: "\<forall>i. i < nat 2 \<longrightarrow>
                (\<exists>frame. store' (frame_path ''frames'' ''walk'' i) = Some frame
                   \<and> (\<forall>x y. x < width frame \<and> y < height frame \<longrightarrow>
                         (\<exists>c. c < width three_pixels - width three_pixels mod nat 2
                            \<and> pixel_at frame x y = pixel_at three_pixels c y)))"
    by blast
  obtain frame where "store' (frame_path ''frames'' ''walk'' 1) = Some frame"
    using fr [rule_format, of 1] by auto
  then have "store' ''frames/walk_f001.png'' = Some frame"
    unfolding sample_frame_path .
  then show ?thesis
    using z run by auto
qed

text \<open>
  C10 as stated fails in its second part: a frame count of at least 1 does not make
  the function return. A sheet two pixels wide cut into three frames has frames zero
  pixels wide, and the first save is refused.
\<close>

theorem slice_sprite_sheet_total_counterexample:
  "slice_sprite_sheet (in_store clear_pixels) ''in.png'' ''frames'' ''walk'' 3
     = Inl SystemError"
  by (simp add: slice_sprite_sheet_def open_in_store clear_pixels_def upt_rec [of 0]
      frame_box_def crop_def image_save_def)

section \<open>Properties of the generation script\<close>

lemma load_api_key_missing:
  "list_all (\<lambda>l. \<not> prefix ''GEMINI_API_KEY='' l) lines \<Longrightarrow> load_api_key lines = None"
  by (induction lines) simp_all

lemma scan_parts_no_image:
  "\<not> list_ex (\<lambda>p. inline_data p \<noteq> None) ps \<Longrightarrow> snd (scan_parts b64decode ps) = NoImage"
  by (induction ps) (auto split: option.splits prod.splits)

lemma scan_candidates_no_image:
  "\<not> list_ex (\<lambda>c. case content_parts c of
                     Some (Some ps) \<Rightarrow> list_ex (\<lambda>p. inline_data p \<noteq> None) ps
                   | _ \<Rightarrow> False) cs
   \<Longrightarrow> snd (scan_candidates b64decode cs) = NoImage"
proof (induction cs)
  case Nil
  then show ?case by simp
next
  case (Cons c cs)
  then have ih: "snd (scan_candidates b64decode cs) = NoImage"
    by simp
  show ?case
  proof (cases "content_parts c")
    case None
    with ih show ?thesis by simp
  next
    case (Some a)
    show ?thesis
    proof (cases a)
      case None
      with Some ih show ?thesis by simp
    next
      case (Some ps)
      then have "\<not> list_ex (\<lambda>p. inline_data p \<noteq> None) ps"
        using Cons.prems \<open>content_parts c = Some a\<close> by simp
      then have "snd (scan_parts b64decode ps) = NoImage"
        by (rule scan_parts_no_image)
      then show ?thesis
        using Some \<open>content_parts c = Some a\<close> ih
        by (auto split: prod.splits found.splits)
    qed
  qed
qed

lemma extract_image_no_image:
  assumes "\<not> has_image_data result"
  shows "\<exists>out. extract_image project_dir b64decode dumps result
           = \<lparr>stdout = calling @ out @
                 [''ERROR: No image was generated. Full response:'', take 2000 (dumps result)],
               written = [], ending = SysExit 1\<rparr>"
proof (cases "candidates result")
  case None
  then show ?thesis
    by (simp add: extract_image_def)
next
  case (Some cs)
  then have "snd (scan_candidates b64decode cs) = NoImage"
    using assms scan_candidates_no_image by (simp add: has_image_data_def)
  then obtain out where "scan_candidates b64decode cs = (out, NoImage)"
    by (metis prod.collapse)
  then show ?thesis
    using Some by (simp add: extract_image_def)
qed

text \<open>
  C7. In each of the three failure cases the script prints its message, writes no
  file, and ends through \<^verbatim>\<open>sys.exit(1)\<close>: when no line of the environment file starts
  with the key name (or the key is empty), when the remote call raises an HTTP error,
  and when no part of the response has image data.
\<close>

theorem generate_beans_failures:
  "(list_all (\<lambda>l. \<not> prefix ''GEMINI_API_KEY='' l) lines \<or> load_api_key lines = Some [] \<longrightarrow>
      generate_beans project_dir (Some lines) urlopen b64decode dumps
        = \<lparr>stdout = [''ERROR: GEMINI_API_KEY not found in .env''], written = [],
           ending = SysExit 1\<rparr>)
   \<and> (load_api_key lines = Some api_key \<and> api_key \<noteq> []
        \<and> urlopen (endpoint @ api_key) = HTTPError code error_body \<longrightarrow>
      generate_beans project_dir (Some lines) urlopen b64decode dumps
        = \<lparr>stdout = calling @ [''API Error '' @ show_int code @ '': '' @ error_body],
           written = [], ending = SysExit 1\<rparr>)
   \<and> (load_api_key lines = Some api_key \<and> api_key \<noteq> []
        \<and> urlopen (endpoint @ api_key) = Reply result \<and> \<not> has_image_data result \<longrightarrow>
      (\<exists>out. generate_beans project_dir (Some lines) urlopen b64decode dumps
        = \<lparr>stdout = calling @ out @
              [''ERROR: No image was generated. Full response:'', take 2000 (dumps result)],
           written = [], ending = SysExit 1\<rparr>))
   \<and> exit_status (SysExit 1) \<noteq> 0"
proof (intro conjI impI)
  assume "list_all (\<lambda>l. \<not> prefix ''GEMINI_API_KEY='' l) lines \<or> load_api_key lines = Some []"
  then have "load_api_key lines = None \<or> load_api_key lines = Some []"
    using load_api_key_missing by blast
  then show "generate_beans project_dir (Some lines) urlopen b64decode dumps
        = \<lparr>stdout = [''ERROR: GEMINI_API_KEY not found in .env''], written = [],
           ending = SysExit 1\<rparr>"
    by (auto simp: generate_beans_def)
next
  assume "load_api_key lines = Some api_key \<and> api_key \<noteq> []
        \<and> urlopen (endpoint @ api_key) = HTTPError code error_body"
  then show "generate_beans project_dir (Some lines) urlopen b64decode dumps
        = \<lparr>stdout = calling @ [''API Error '' @ show_int code @ '': '' @ error_body],
           written = [], ending = SysExit 1\<rparr>"
    by (simp add: generate_beans_def)
next
  assume a: "load_api_key lines = Some api_key \<and> api_key \<noteq> []
        \<and> urlopen (endpoint @ api_key) = Reply result \<and> \<not> has_image_data result"
  then have "generate_beans project_dir (Some lines) urlopen b64decode dumps
               = extract_image project_dir b64decode dumps result"
    by (simp add: generate_beans_def)
  then show "\<exists>out. generate_beans project_dir (Some lines) urlopen b64decode dumps
        = \<lparr>stdout = calling @ out @
              [''ERROR: No image was generated. Full response:'', take 2000 (dumps result)],
           written = [], ending = SysExit 1\<rparr>"
    using extract_image_no_image [of result project_dir b64decode dumps] a by simp
next
  show "exit_status (SysExit 1) \<noteq> 0"
    by simp
qed


lemma key_env_key: "load_api_key key_env = Some ''abc123''"
  by code_simp

lemma show_403: "show_int 403 = ''403''"
  by code_simp

lemma text_only_no_image: "\<not> has_image_data text_only"
  by (simp add: has_image_data_def text_only_def)

theorem generate_beans_failures_witness:
  "generate_beans ''/proj'' (Some [''OTHER=1'']) (\<lambda>u. RequestFailure []) (\<lambda>d. None) (\<lambda>r. [])
     = \<lparr>stdout = [''ERROR: GEMINI_API_KEY not found in .env''], written = [],
        ending = SysExit 1\<rparr>
   \<and> generate_beans ''/proj'' (Some key_env) (\<lambda>u. HTTPError 403 ''denied'') (\<lambda>d. None)
       (\<lambda>r. [])
     = \<lparr>stdout = calling @ [''API Error 403: denied''], written = [], ending = SysExit 1\<rparr>
   \<and> (\<exists>out. generate_beans ''/proj'' (Some key_env) (\<lambda>u. Reply text_only) (\<lambda>d. None)
               (\<lambda>r. ''{}'')
     = \<lparr>stdout = calling @ out @ [''ERROR: No image was generated. Full response:'', ''{}''],
        written = [], ending = SysExit 1\<rparr>)"
proof (intro conjI)
  have "list_all (\<lambda>l. \<not> prefix ''GEMINI_API_KEY='' l) [''OTHER=1'']"
    by simp
  then show "generate_beans ''/proj'' (Some [''OTHER=1'']) (\<lambda>u. RequestFailure []) (\<lambda>d. None)
               (\<lambda>r. [])
     = \<lparr>stdout = [''ERROR: GEMINI_API_KEY not found in .env''], written = [],
        ending = SysExit 1\<rparr>"
    using generate_beans_failures
      [of "[''OTHER=1'']" "''/proj''" "\<lambda>u. RequestFailure []" "\<lambda>d. None" "\<lambda>r. []"]
    by blast
next
  show "generate_beans ''/proj'' (Some key_env) (\<lambda>u. HTTPError 403 ''denied'') (\<lambda>d. None)
       (\<lambda>r. [])
     = \<lparr>stdout = calling @ [''API Error 403: denied''], written = [], ending = SysExit 1\<rparr>"
    using generate_beans_failures
      [of key_env "''/proj''" "\<lambda>u. HTTPError 403 ''denied''" "\<lambda>d. None" "\<lambda>r. []"
        "''abc123''" 403 "''denied''"]
      key_env_key
    by (simp add: show_403)
next
  show "\<exists>out. generate_beans ''/proj'' (Some key_env) (\<lambda>u. Reply text_only) (\<lambda>d. None)
               (\<lambda>r. ''{}'')
     = \<lparr>stdout = calling @ out @ [''ERROR: No image was generated. Full response:'', ''{}''],
        written = [], ending = SysExit 1\<rparr>"
    using generate_beans_failures
      [of key_env "''/proj''" "\<lambda>u. Reply text_only" "\<lambda>d. None" "\<lambda>r. ''{}''"
        "''abc123''" _ _ text_only]
      key_env_key text_only_no_image
    by simp
qed


end
